theory Spec2Isabelle
  imports Main "HOL-Library.Sublist" "HOL-Library.AList"
begin

section \<open>JavaScript string primitives used by the connector\<close>

text \<open>
  Strings are lists of 8-bit code units read as Latin-1 code points; the embedding covers
  the strings whose UTF-16 code units are all below 256.
\<close>

text \<open>The white space and line terminator code points below 256 that \<open>String.prototype.trim\<close> strips.\<close>

definition isWhiteSpace :: "char \<Rightarrow> bool" where
  "isWhiteSpace c = (of_char c \<in> set [9, 10, 11, 12, 13, 32, 160 :: nat])"

definition trim :: "string \<Rightarrow> string" where
  "trim s = rev (dropWhile isWhiteSpace (rev (dropWhile isWhiteSpace s)))"

text \<open>\<open>String.prototype.toLowerCase\<close> on Latin-1: A-Z and the accented capitals move by 32.\<close>

definition lowerChar :: "char \<Rightarrow> char" where
  "lowerChar c =
     (let n = (of_char c :: nat)
      in if (65 \<le> n \<and> n \<le> 90) \<or> (192 \<le> n \<and> n \<le> 222 \<and> n \<noteq> 215)
         then char_of (n + 32) else c)"

definition toLowerCase :: "string \<Rightarrow> string" where
  "toLowerCase s = map lowerChar s"

text \<open>\<open>String.prototype.includes\<close>: the needle starts at some position of the string.\<close>

fun str_includes :: "string \<Rightarrow> string \<Rightarrow> bool" where
  "str_includes [] needle = (needle = [])"
| "str_includes (c # cs) needle = (prefix needle (c # cs) \<or> str_includes cs needle)"

text \<open>\<open>String.prototype.indexOf\<close> for a one-character needle: the first position, or -1.\<close>

fun indexOf :: "string \<Rightarrow> char \<Rightarrow> int" where
  "indexOf [] ch = -1"
| "indexOf (c # cs) ch =
     (if c = ch then 0 else (let r = indexOf cs ch in if r = -1 then -1 else r + 1))"

text \<open>\<open>s.substring(0, e)\<close> for an end index that is not negative.\<close>

definition substring0 :: "string \<Rightarrow> int \<Rightarrow> string" where
  "substring0 s e = take (nat e) s"

text \<open>Decimal rendering of a non-negative integer inside a template literal.\<close>

fun show_nat :: "nat \<Rightarrow> string" where
  "show_nat n =
     (if n < 10 then [char_of (48 + n)]
      else show_nat (n div 10) @ [char_of (48 + n mod 10)])"

declare show_nat.simps [simp del]

text \<open>Truthiness of an optional string: \<open>undefined\<close> and the empty string are falsy.\<close>

definition truthy :: "string option \<Rightarrow> bool" where
  "truthy v = (case v of None \<Rightarrow> False | Some s \<Rightarrow> s \<noteq> [])"

text \<open>\<open>v || undefined\<close> on an optional string.\<close>

definition or_undefined :: "string option \<Rightarrow> string option" where
  "or_undefined v = (if truthy v then v else None)"

section \<open>Types (lib/types.ts)\<close>

record LumaAttendee =
  email :: string
  name :: "string option"
  phone_number :: "string option"
  registrationDate :: "string option"
  attendanceDate :: "string option"
  ticketType :: "string option"
  status :: "string option"
  hasJoinedEvent :: "bool option"

record ProcessedAttendee = LumaAttendee +
  hasRegistration :: bool
  hasAttendance :: bool

record IntercomEvent =
  event_name :: string
  created_at :: int
  ev_email :: string
  ev_name :: "string option"
  ev_phone_number :: "string option"
  metadata :: "(string \<times> string option) list option"

datatype EventType = RegisteredForEvent | AttendedEvent

fun eventTypeName :: "EventType \<Rightarrow> string" where
  "eventTypeName RegisteredForEvent = ''registered-for-event''"
| "eventTypeName AttendedEvent = ''attended-event''"

record ProcessingResult =
  success :: bool
  res_email :: string
  eventType :: EventType
  error :: "string option"

record ColumnMapping =
  m_email :: string
  m_name :: "string option"
  m_phone_number :: "string option"
  m_registrationDate :: "string option"
  m_attendanceDate :: "string option"
  m_ticketType :: "string option"
  m_status :: "string option"
  m_hasJoinedEvent :: "string option"
  m_approval_status :: "string option"

record EventSettings =
  eventName :: "string option"
  eventDate :: "string option"
  eventTime :: "string option"
  presenter :: "string option"

section \<open>Disposition classifier (processAttendees)\<close>

text \<open>\<open>attendee.status?.toLowerCase().includes(w)\<close>: \<open>undefined\<close> (falsy) without a status.\<close>

definition statusIncludes :: "string option \<Rightarrow> string \<Rightarrow> bool" where
  "statusIncludes st w = (case st of None \<Rightarrow> False | Some s \<Rightarrow> str_includes (toLowerCase s) w)"

definition classify :: "LumaAttendee \<Rightarrow> ProcessedAttendee" where
  "classify attendee =
     (let hasRegistration' =
            (truthy (registrationDate attendee) \<or>
             statusIncludes (status attendee) ''registered'' \<or>
             statusIncludes (status attendee) ''registration'');
          hasAttendance' =
            (hasJoinedEvent attendee = Some True \<or>
             truthy (attendanceDate attendee) \<or>
             statusIncludes (status attendee) ''attended'' \<or>
             statusIncludes (status attendee) ''checked'' \<or>
             statusIncludes (status attendee) ''present'')
      in LumaAttendee.extend attendee
           (ProcessedAttendee.fields hasRegistration' hasAttendance'))"

definition processAttendees :: "LumaAttendee list \<Rightarrow> ProcessedAttendee list" where
  "processAttendees attendees = map classify attendees"

text \<open>
  The wording of the specification, for comparison: a status text contains a word as a
  case-insensitive substring when some contiguous part of it lower-cases to the word.
\<close>

definition containsCaseInsensitive :: "string option \<Rightarrow> string \<Rightarrow> bool" where
  "containsCaseInsensitive st w =
     (\<exists>s pre mid post. st = Some s \<and> s = pre @ mid @ post \<and> toLowerCase mid = w)"

definition present :: "string option \<Rightarrow> bool" where
  "present v = (\<exists>s. v = Some s \<and> s \<noteq> [])"

section \<open>Event deriver (createIntercomEvents)\<close>

text \<open>
  The combined event date of lines 135-141: the date and the time joined by a space when
  both are truthy, else the date when it is truthy, else \<open>undefined\<close>.
\<close>

definition combineEventDate :: "EventSettings option \<Rightarrow> string option" where
  "combineEventDate eventSettings =
     (let d = (case eventSettings of None \<Rightarrow> None | Some es \<Rightarrow> eventDate es);
          t = (case eventSettings of None \<Rightarrow> None | Some es \<Rightarrow> eventTime es);
          eventDate0 = or_undefined d
      in if truthy d \<and> truthy t
         then (case (d, t) of (Some ds, Some ts) \<Rightarrow> Some (ds @ '' '' @ ts) | _ \<Rightarrow> eventDate0)
         else if truthy d then d
         else eventDate0)"

text \<open>
  The timestamp of an event: the parsed date in seconds when the date string is truthy and
  parses, else \<open>now\<close>. \<open>getTime\<close> stands for \<open>new Date(s).getTime()\<close>, with
  \<open>None\<close> for \<open>NaN\<close>.
\<close>

definition timestampOf :: "(string \<Rightarrow> int option) \<Rightarrow> int \<Rightarrow> string option \<Rightarrow> int" where
  "timestampOf getTime now d =
     (case d of
        None \<Rightarrow> now
      | Some ds \<Rightarrow>
          if ds = [] then now
          else (case getTime ds of None \<Rightarrow> now | Some ms \<Rightarrow> ms div 1000))"

definition eventMetadata :: "ProcessedAttendee \<Rightarrow> EventSettings option \<Rightarrow> (string \<times> string option) list" where
  "eventMetadata attendee eventSettings =
     [(''event_name'', or_undefined (case eventSettings of None \<Rightarrow> None | Some es \<Rightarrow> eventName es)),
      (''event_date'', combineEventDate eventSettings),
      (''ticket_type'', or_undefined (ticketType attendee)),
      (''presenter'', or_undefined (case eventSettings of None \<Rightarrow> None | Some es \<Rightarrow> presenter es))]"

definition registrationEvent ::
  "(string \<Rightarrow> int option) \<Rightarrow> int \<Rightarrow> ProcessedAttendee \<Rightarrow> EventSettings option \<Rightarrow> IntercomEvent" where
  "registrationEvent getTime now attendee eventSettings =
     \<lparr>event_name = ''registered-for-event'',
      created_at = timestampOf getTime now (registrationDate attendee),
      ev_email = email attendee,
      ev_name = name attendee,
      ev_phone_number = phone_number attendee,
      metadata = Some (eventMetadata attendee eventSettings)\<rparr>"

definition attendanceEvent ::
  "(string \<Rightarrow> int option) \<Rightarrow> int \<Rightarrow> ProcessedAttendee \<Rightarrow> EventSettings option \<Rightarrow> IntercomEvent" where
  "attendanceEvent getTime now attendee eventSettings =
     \<lparr>event_name = ''attended-event'',
      created_at = timestampOf getTime now (attendanceDate attendee),
      ev_email = email attendee,
      ev_name = name attendee,
      ev_phone_number = phone_number attendee,
      metadata = Some (eventMetadata attendee eventSettings)\<rparr>"

text \<open>
  The loop over the attendees, with the array \<open>events\<close> as accumulator. \<open>dateNow k\<close> is
  what \<open>Date.now()\<close> returns in iteration \<open>k\<close>, in milliseconds.
\<close>

fun createIntercomEvents_loop ::
  "(string \<Rightarrow> int option) \<Rightarrow> (nat \<Rightarrow> int) \<Rightarrow> EventSettings option \<Rightarrow> nat \<Rightarrow>
   ProcessedAttendee list \<Rightarrow> IntercomEvent list \<Rightarrow> IntercomEvent list" where
  "createIntercomEvents_loop getTime dateNow eventSettings k [] events = events"
| "createIntercomEvents_loop getTime dateNow eventSettings k (attendee # rest) events =
     (let now = dateNow k div 1000;
          events1 = (if hasRegistration attendee
                     then events @ [registrationEvent getTime now attendee eventSettings]
                     else events);
          events2 = (if hasAttendance attendee
                     then events1 @ [attendanceEvent getTime now attendee eventSettings]
                     else events1)
      in createIntercomEvents_loop getTime dateNow eventSettings (Suc k) rest events2)"

definition createIntercomEvents ::
  "(string \<Rightarrow> int option) \<Rightarrow> (nat \<Rightarrow> int) \<Rightarrow> ProcessedAttendee list \<Rightarrow> EventSettings option \<Rightarrow>
   IntercomEvent list" where
  "createIntercomEvents getTime dateNow attendees eventSettings =
     createIntercomEvents_loop getTime dateNow eventSettings 0 attendees []"

section \<open>Record normalizer (parseAttendee) and the attendee extraction loop\<close>

text \<open>A row is a dictionary from column names to cell texts; \<open>row[col] || ""\<close>.\<close>

definition cell :: "(string \<rightharpoonup> string) \<Rightarrow> string \<Rightarrow> string" where
  "cell row col = (case row col of None \<Rightarrow> [] | Some v \<Rightarrow> v)"

text \<open>\<open>mapping.f ? (row[mapping.f] || "").trim() : ""\<close> for an optional mapping entry.\<close>

definition mapped :: "(string \<rightharpoonup> string) \<Rightarrow> string option \<Rightarrow> string" where
  "mapped row col = (case col of None \<Rightarrow> [] | Some c \<Rightarrow> if c = [] then [] else trim (cell row c))"

definition parseAttendee :: "(string \<rightharpoonup> string) \<Rightarrow> ColumnMapping \<Rightarrow> LumaAttendee option" where
  "parseAttendee row mapping =
     (let em = (if m_email mapping \<noteq> [] then trim (cell row (m_email mapping)) else [])
      in if em = [] \<or> \<not> str_includes em ''@'' then None
         else
           (let joined =
                  (if truthy (m_hasJoinedEvent mapping)
                   then (let v = toLowerCase (mapped row (m_hasJoinedEvent mapping))
                         in Some (v = ''true'' \<or> v = ''1'' \<or> v = ''yes'' \<or> v = ''y'' \<or> v = ''joined''))
                   else None)
            in Some \<lparr>email = em,
                     name = Some (mapped row (m_name mapping)),
                     phone_number = Some (mapped row (m_phone_number mapping)),
                     registrationDate = Some (mapped row (m_registrationDate mapping)),
                     attendanceDate = Some (mapped row (m_attendanceDate mapping)),
                     ticketType = Some (mapped row (m_ticketType mapping)),
                     status = Some (mapped row (m_status mapping)),
                     hasJoinedEvent = joined\<rparr>))"

definition replaceEmailDomain :: "string \<Rightarrow> string" where
  "replaceEmailDomain em =
     (let atIndex = indexOf em CHR ''@''
      in if atIndex = -1 then em else substring0 em (atIndex + 1) @ ''example.com'')"

text \<open>The test of lines 320-325: the row is one of an invited guest.\<close>

definition isInvited :: "(string \<rightharpoonup> string) \<Rightarrow> ColumnMapping \<Rightarrow> bool" where
  "isInvited row mapping =
     (if truthy (m_approval_status mapping)
      then toLowerCase (mapped row (m_approval_status mapping)) = ''invited''
      else False)"

text \<open>
  The loop of lines 316-342 over the parsed rows, from index \<open>i\<close> on, with the arrays
  \<open>attendees\<close> and \<open>errors\<close> as accumulators.
\<close>

fun extractAttendees_loop ::
  "ColumnMapping \<Rightarrow> bool \<Rightarrow> nat \<Rightarrow> (string \<rightharpoonup> string) list \<Rightarrow>
   LumaAttendee list \<times> string list \<Rightarrow> LumaAttendee list \<times> string list" where
  "extractAttendees_loop mapping testMode i [] acc = acc"
| "extractAttendees_loop mapping testMode i (row # rest) (attendees, errs) =
     (if isInvited row mapping
      then extractAttendees_loop mapping testMode (Suc i) rest (attendees, errs)
      else
        (case parseAttendee row mapping of
           None \<Rightarrow>
             extractAttendees_loop mapping testMode (Suc i) rest
               (attendees, errs @ [''Row '' @ show_nat (i + 2) @ '': Missing or invalid email address''])
         | Some attendee \<Rightarrow>
             (let attendee' = (if testMode
                               then attendee\<lparr>email := replaceEmailDomain (email attendee)\<rparr>
                               else attendee)
              in extractAttendees_loop mapping testMode (Suc i) rest
                   (attendees @ [attendee'], errs))))"

definition extractAttendees ::
  "ColumnMapping \<Rightarrow> bool \<Rightarrow> (string \<rightharpoonup> string) list \<Rightarrow> LumaAttendee list \<times> string list" where
  "extractAttendees mapping testMode rows = extractAttendees_loop mapping testMode 0 rows ([], [])"

section \<open>Intercom client (lib/intercom.ts)\<close>

subsection \<open>Thrown values, the SDK client and the environment\<close>

text \<open>
  A JavaScript value as \<open>JSON.parse\<close> yields it, and \<open>undefined\<close>. A number is given by
  its rendering \<open>String(n)\<close>; an object by its own properties.
\<close>

datatype js =
  JUndefined
| JNull
| JBool bool
| JNum string
| JStr string
| JArr "js list"
| JObj "(string \<times> js) list"

text \<open>
  What a \<open>catch\<close> clause can receive: an \<open>IntercomError\<close> of the SDK with its status code,
  message and body (of type \<open>unknown\<close>: whatever the response held, \<open>undefined\<close> without
  one), another \<open>Error\<close> with its message (a \<open>TypeError\<close> is one), or a value that is no
  \<open>Error\<close>.
\<close>

datatype thrown =
  IntercomError "nat option" string js
| Error string
| NonError

text \<open>The ways an expression of the \<open>catch\<close> clause of \<open>publishEvent\<close> raises a \<open>TypeError\<close>.\<close>

datatype fault =
  NotAFunction
| PropertyOfNull
| PropertyOfUndefined
| NoPrimitiveValue

text \<open>\<open>Boolean(v)\<close>.\<close>

fun truthyJs :: "js \<Rightarrow> bool" where
  "truthyJs JUndefined = False"
| "truthyJs JNull = False"
| "truthyJs (JBool b) = b"
| "truthyJs (JNum r) = (r \<noteq> ''0'' \<and> r \<noteq> ''NaN'')"
| "truthyJs (JStr x) = (x \<noteq> [])"
| "truthyJs (JArr xs) = True"
| "truthyJs (JObj kv) = True"

text \<open>
  \<open>v.k\<close> for one of the keys \<open>errors\<close>, \<open>request_id\<close>, \<open>message\<close>, which no prototype
  defines: a \<open>TypeError\<close> on \<open>null\<close> and \<open>undefined\<close>, the own property of an object,
  \<open>undefined\<close> on every other value.
\<close>

fun getProp :: "js \<Rightarrow> string \<Rightarrow> fault + js" where
  "getProp JUndefined k = Inl PropertyOfUndefined"
| "getProp JNull k = Inl PropertyOfNull"
| "getProp (JObj kv) k = Inr (case map_of kv k of None \<Rightarrow> JUndefined | Some v \<Rightarrow> v)"
| "getProp v k = Inr JUndefined"

text \<open>\<open>v?.k\<close>.\<close>

definition getPropOpt :: "js \<Rightarrow> string \<Rightarrow> js" where
  "getPropOpt v k = (case getProp v k of Inl f \<Rightarrow> JUndefined | Inr x \<Rightarrow> x)"

text \<open>
  \<open>String(v)\<close>, with \<open>Array.prototype.join\<close> for the elements of an array (\<open>null\<close> and
  \<open>undefined\<close> elements render as the empty string). An object that has an own property
  \<open>toString\<close> has no primitive value, since no value of a parsed body is callable.
\<close>

fun toStringJs :: "js \<Rightarrow> fault + string"
  and joinJs :: "string \<Rightarrow> js list \<Rightarrow> fault + string" where
  "toStringJs JUndefined = Inr ''undefined''"
| "toStringJs JNull = Inr ''null''"
| "toStringJs (JBool b) = Inr (if b then ''true'' else ''false'')"
| "toStringJs (JNum r) = Inr r"
| "toStringJs (JStr x) = Inr x"
| "toStringJs (JArr xs) = joinJs '','' xs"
| "toStringJs (JObj kv) =
     (case map_of kv ''toString'' of None \<Rightarrow> Inr ''[object Object]'' | Some v \<Rightarrow> Inl NoPrimitiveValue)"
| "joinJs sep [] = Inr []"
| "joinJs sep (x # xs) =
     (case (if x = JUndefined \<or> x = JNull then Inr [] else toStringJs x) of
        Inl f \<Rightarrow> Inl f
      | Inr h \<Rightarrow>
          (if xs = [] then Inr h
           else (case joinJs sep xs of Inl f \<Rightarrow> Inl f | Inr t \<Rightarrow> Inr (h @ sep @ t))))"

text \<open>\<open>e instanceof Error ? e.message : undefined\<close>.\<close>

fun errorMessageOf :: "thrown \<Rightarrow> string option" where
  "errorMessageOf (IntercomError statusCode msg b) = Some msg"
| "errorMessageOf (Error msg) = Some msg"
| "errorMessageOf NonError = None"

record UserData =
  ud_email :: string
  ud_name :: "string option"
  ud_phone :: "string option"

record UpdateData =
  contact_id :: string
  upd_phone :: "string option"
  upd_name :: "string option"

record EventPayload =
  p_event_name :: string
  p_created_at :: int
  p_email :: string
  p_metadata :: "(string \<times> string) list option"

text \<open>
  The operations of the SDK client the connector calls. The remote workspace is a state
  \<open>'w\<close>; each call returns its result or the value it throws, and the next state.
  A search returns the \<open>data\<close> array of the result (\<open>None\<close> when it is missing), each
  contact by its id.
\<close>

record 'w IntercomClient =
  contacts_create :: "UserData \<Rightarrow> 'w \<Rightarrow> (thrown + unit) \<times> 'w"
  contacts_search :: "string \<Rightarrow> 'w \<Rightarrow> (thrown + string list option) \<times> 'w"
  contacts_update :: "UpdateData \<Rightarrow> 'w \<Rightarrow> (thrown + unit) \<times> 'w"
  events_create :: "EventPayload \<Rightarrow> 'w \<Rightarrow> (thrown + unit) \<times> 'w"

text \<open>
  The two variables of \<open>process.env\<close> the client reads. The environment is read at every
  call of \<open>getIntercomClient\<close>; nothing in the connector writes it, so it is the same
  during a run.
\<close>

record Env =
  INTERCOM_ACCESS_TOKEN :: "string option"
  INTERCOM_ACCESS_TOKEN_TEST :: "string option"

text \<open>
  The observable steps of a run, in the order they are issued: remote calls, timer waits (in
  milliseconds), console warnings and invocations of the progress callback.
\<close>

datatype action =
  ContactsCreate UserData
| ContactsSearch string
| ContactsUpdate UpdateData
| EventsCreate EventPayload
| Delay nat
| Warn string
| OnProgress ProcessingResult nat nat

type_synonym 'w state = "'w \<times> action list"

definition log :: "action \<Rightarrow> 'w state \<Rightarrow> 'w state" where
  "log a s = (fst s, snd s @ [a])"

definition call :: "action \<Rightarrow> ('w \<Rightarrow> 'a \<times> 'w) \<Rightarrow> 'w state \<Rightarrow> 'a \<times> 'w state" where
  "call a f s = (case f (fst s) of (r, w) \<Rightarrow> (r, (w, snd s @ [a])))"

text \<open>
  What the connector runs on: \<open>newClient\<close> is the SDK's constructor
  \<open>new IntercomClient({ token })\<close>, \<open>typeErrorMessage\<close> the wording the JavaScript engine
  gives to a \<open>TypeError\<close>.
\<close>

record 'w Platform =
  newClient :: "string \<Rightarrow> 'w IntercomClient"
  typeErrorMessage :: "fault \<Rightarrow> string"

definition getIntercomClient ::
  "'w Platform \<Rightarrow> Env \<Rightarrow> bool \<Rightarrow> thrown + 'w IntercomClient" where
  "getIntercomClient pf env testMode =
     (let token = (if testMode then INTERCOM_ACCESS_TOKEN_TEST env else INTERCOM_ACCESS_TOKEN env);
          tokenName = (if testMode then ''INTERCOM_ACCESS_TOKEN_TEST'' else ''INTERCOM_ACCESS_TOKEN'')
      in case token of
           None \<Rightarrow>
             Inl (Error (tokenName @ '' environment variable is not set. Please add it to your .env.local file.''))
         | Some t \<Rightarrow>
             if t = []
             then Inl (Error (tokenName @ '' environment variable is not set. Please add it to your .env.local file.''))
             else Inr (newClient pf t))"

subsection \<open>Contact resolver (ensureUserExists)\<close>

text \<open>\<open>v && v.trim()\<close> is truthy: the field is carried, trimmed.\<close>

definition trimmedField :: "string option \<Rightarrow> string option" where
  "trimmedField v =
     (case v of
        None \<Rightarrow> None
      | Some x \<Rightarrow> if x \<noteq> [] \<and> trim x \<noteq> [] then Some (trim x) else None)"

text \<open>\<open>Object.keys(updateData)\<close>: the contact id and the fields that were assigned.\<close>

definition updateDataKeys :: "UpdateData \<Rightarrow> string list" where
  "updateDataKeys u =
     [''contact_id''] @
     (case upd_phone u of None \<Rightarrow> [] | Some x \<Rightarrow> [''phone'']) @
     (case upd_name u of None \<Rightarrow> [] | Some x \<Rightarrow> [''name''])"

definition updateWarning :: "string \<Rightarrow> thrown \<Rightarrow> string" where
  "updateWarning em updateError =
     ''Could not update contact '' @ em @ '' with phone/name: '' @
     (case errorMessageOf updateError of Some m \<Rightarrow> m | None \<Rightarrow> ''Unknown error'')"

text \<open>The inner \<open>try\<close> of lines 64-106, entered after a 422 or 409 from the create call.\<close>

definition updateExisting ::
  "'w IntercomClient \<Rightarrow> string \<Rightarrow> string option \<Rightarrow> string option \<Rightarrow> 'w state \<Rightarrow> 'w state" where
  "updateExisting client em nm ph s =
     (case call (ContactsSearch em) (contacts_search client em) s of
        (Inl updateError, s1) \<Rightarrow> log (Warn (updateWarning em updateError)) s1
      | (Inr searchResult, s1) \<Rightarrow>
          (case searchResult of
             None \<Rightarrow> s1
           | Some [] \<Rightarrow> s1
           | Some (contact # others) \<Rightarrow>
               (let updateData = \<lparr>contact_id = contact,
                                   upd_phone = trimmedField ph,
                                   upd_name = trimmedField nm\<rparr>
                in if length (updateDataKeys updateData) > 1
                   then (case call (ContactsUpdate updateData) (contacts_update client updateData) s1 of
                           (Inl updateError, s2) \<Rightarrow> log (Warn (updateWarning em updateError)) s2
                         | (Inr u, s2) \<Rightarrow> s2)
                   else s1)))"

definition ensureUserExists ::
  "'w Platform \<Rightarrow> Env \<Rightarrow> string \<Rightarrow> string option \<Rightarrow> string option \<Rightarrow> bool \<Rightarrow>
   'w state \<Rightarrow> (thrown + unit) \<times> 'w state" where
  "ensureUserExists pf env em nm ph testMode s =
     (case getIntercomClient pf env testMode of
        Inl e \<Rightarrow> (Inl e, s)
      | Inr client \<Rightarrow>
          (let userData = \<lparr>ud_email = em, ud_name = trimmedField nm, ud_phone = trimmedField ph\<rparr>
           in case call (ContactsCreate userData) (contacts_create client userData) s of
                (Inr u, s1) \<Rightarrow> (Inr (), s1)
              | (Inl e, s1) \<Rightarrow>
                  (case e of
                     IntercomError statusCode msg b \<Rightarrow>
                       if statusCode = Some 422 \<or> statusCode = Some 409
                       then (Inr (), updateExisting client em nm ph s1)
                       else (Inr (), log (Warn (''Could not create contact '' @ em @ '': '' @ msg)) s1)
                   | Error msg \<Rightarrow> (Inr (), s1)
                   | NonError \<Rightarrow> (Inr (), s1))))"

subsection \<open>Event publisher (publishEvent)\<close>

text \<open>The metadata entries that are neither \<open>undefined\<close> nor empty, assigned key by key.\<close>

definition filterMetadata :: "(string \<times> string option) list option \<Rightarrow> (string \<times> string) list" where
  "filterMetadata md =
     (case md of
        None \<Rightarrow> []
      | Some entries \<Rightarrow>
          fold (\<lambda>(key, v) acc.
                  case v of None \<Rightarrow> acc | Some x \<Rightarrow> if x \<noteq> [] then AList.update key x acc else acc)
               entries [])"

definition eventPayloadOf :: "IntercomEvent \<Rightarrow> EventPayload" where
  "eventPayloadOf event =
     (let md = filterMetadata (metadata event)
      in \<lparr>p_event_name = event_name event,
          p_created_at = created_at event,
          p_email = ev_email event,
          p_metadata = (if length md > 0 then Some md else None)\<rparr>)"

definition eventTypeOf :: "IntercomEvent \<Rightarrow> EventType" where
  "eventTypeOf event =
     (if event_name event = ''registered-for-event'' then RegisteredForEvent else AttendedEvent)"

text \<open>\<open>Array.prototype.join\<close>.\<close>

fun join :: "string \<Rightarrow> string list \<Rightarrow> string" where
  "join sep [] = []"
| "join sep [x] = x"
| "join sep (x # y # ys) = x @ sep @ join sep (y # ys)"

text \<open>A status code inside a template literal; a missing one prints as \<open>undefined\<close>.\<close>

definition showStatus :: "nat option \<Rightarrow> string" where
  "showStatus statusCode = (case statusCode of None \<Rightarrow> ''undefined'' | Some n \<Rightarrow> show_nat n)"

text \<open>The callbacks of \<open>errors.map((e) => e.message)\<close>, run over the elements in order.\<close>

fun mapMessages :: "js list \<Rightarrow> fault + js list" where
  "mapMessages [] = Inr []"
| "mapMessages (e # es) =
     (case getProp e ''message'' of
        Inl f \<Rightarrow> Inl f
      | Inr m \<Rightarrow> (case mapMessages es of Inl f \<Rightarrow> Inl f | Inr ms \<Rightarrow> Inr (m # ms)))"

text \<open>
  \<open>errorBody.errors.map((e) => e.message).join(", ")\<close> for a truthy \<open>errors\<close>: only an
  array has a \<open>map\<close> that can be called.
\<close>

definition errorDetailsOf :: "js \<Rightarrow> fault + string" where
  "errorDetailsOf errs =
     (case errs of
        JArr es \<Rightarrow> (case mapMessages es of Inl f \<Rightarrow> Inl f | Inr ms \<Rightarrow> joinJs '', '' ms)
      | other \<Rightarrow> Inl NotAFunction)"

text \<open>
  The \<open>catch\<close> clause of lines 171-186: the message it builds, or the \<open>TypeError\<close> it
  raises itself, which leaves \<open>publishEvent\<close>.
\<close>

definition catchMessage :: "'w Platform \<Rightarrow> thrown \<Rightarrow> thrown + string" where
  "catchMessage pf e =
     (case e of
        IntercomError statusCode msg errorBody \<Rightarrow>
          (let errs = getPropOpt errorBody ''errors''
           in case (if truthyJs errs then errorDetailsOf errs else Inr msg) of
                Inl f \<Rightarrow> Inl (Error (typeErrorMessage pf f))
              | Inr errorDetails \<Rightarrow>
                  (let errorMessage =
                         ''Intercom API error ('' @ showStatus statusCode @ ''): '' @ errorDetails;
                       rid = getPropOpt errorBody ''request_id''
                   in if truthyJs rid
                      then (case toStringJs rid of
                              Inl f \<Rightarrow> Inl (Error (typeErrorMessage pf f))
                            | Inr r \<Rightarrow> Inr (errorMessage @ '' Request ID: '' @ r))
                      else Inr errorMessage))
      | Error msg \<Rightarrow> Inr msg
      | NonError \<Rightarrow> Inr ''Unknown error'')"

text \<open>The \<open>try\<close> block of lines 126-170, with the client obtained before it.\<close>

definition publishEvent_try ::
  "'w Platform \<Rightarrow> Env \<Rightarrow> 'w IntercomClient \<Rightarrow> IntercomEvent \<Rightarrow> bool \<Rightarrow>
   'w state \<Rightarrow> (thrown + ProcessingResult) \<times> 'w state" where
  "publishEvent_try pf env client event testMode s =
     (case ensureUserExists pf env (ev_email event) (ev_name event) (ev_phone_number event) testMode s of
        (Inl e, s1) \<Rightarrow> (Inl e, s1)
      | (Inr u, s1) \<Rightarrow>
          (let s2 = log (Delay 200) s1;
               eventPayload = eventPayloadOf event
           in case call (EventsCreate eventPayload) (events_create client eventPayload) s2 of
                (Inl e, s3) \<Rightarrow> (Inl e, s3)
              | (Inr v, s3) \<Rightarrow>
                  (Inr \<lparr>success = True, res_email = ev_email event,
                        eventType = eventTypeOf event, error = None\<rparr>, s3)))"

definition publishEvent ::
  "'w Platform \<Rightarrow> Env \<Rightarrow> IntercomEvent \<Rightarrow> bool \<Rightarrow> 'w state \<Rightarrow>
   (thrown + ProcessingResult) \<times> 'w state" where
  "publishEvent pf env event testMode s =
     (case getIntercomClient pf env testMode of
        Inl e \<Rightarrow> (Inl e, s)
      | Inr client \<Rightarrow>
          (case publishEvent_try pf env client event testMode s of
             (Inr r, s1) \<Rightarrow> (Inr r, s1)
           | (Inl e, s1) \<Rightarrow>
               (case catchMessage pf e of
                  Inl t \<Rightarrow> (Inl t, s1)
                | Inr m \<Rightarrow>
                    (Inr \<lparr>success = False, res_email = ev_email event,
                          eventType = eventTypeOf event, error = Some m\<rparr>, s1))))"

subsection \<open>Batch orchestrator (publishEvents, publishEventsWithProgress)\<close>

text \<open>
  The loop of \<open>publishEvents\<close> over the remaining events; \<open>n\<close> is \<open>events.length\<close> and
  \<open>acc\<close> the array \<open>results\<close>. A value thrown by \<open>publishEvent\<close> leaves the loop.
\<close>

fun publishEvents_loop ::
  "'w Platform \<Rightarrow> Env \<Rightarrow> nat \<Rightarrow> bool \<Rightarrow> IntercomEvent list \<Rightarrow>
   ProcessingResult list \<Rightarrow> 'w state \<Rightarrow> (thrown + ProcessingResult list) \<times> 'w state" where
  "publishEvents_loop pf env n testMode [] acc s = (Inr acc, s)"
| "publishEvents_loop pf env n testMode (event # rest) acc s =
     (case publishEvent pf env event testMode s of
        (Inl e, s1) \<Rightarrow> (Inl e, s1)
      | (Inr r, s1) \<Rightarrow>
          publishEvents_loop pf env n testMode rest (acc @ [r])
            (if n > 1 then log (Delay 100) s1 else s1))"

definition publishEvents ::
  "'w Platform \<Rightarrow> Env \<Rightarrow> IntercomEvent list \<Rightarrow> bool \<Rightarrow> 'w state \<Rightarrow>
   (thrown + ProcessingResult list) \<times> 'w state" where
  "publishEvents pf env events testMode s =
     publishEvents_loop pf env (length events) testMode events [] s"

text \<open>
  The loop of \<open>publishEventsWithProgress\<close> from index \<open>i\<close> on, over the events that remain;
  \<open>tot\<close> is \<open>events.length\<close>. The callback works on a state \<open>'c\<close> of its own and may
  throw; what \<open>publishEvent\<close> or the callback throws leaves the loop.
\<close>

fun publishEventsWithProgress_loop ::
  "'w Platform \<Rightarrow> Env \<Rightarrow> nat \<Rightarrow>
   (ProcessingResult \<Rightarrow> nat \<Rightarrow> nat \<Rightarrow> 'c \<Rightarrow> (thrown + unit) \<times> 'c) \<Rightarrow> bool \<Rightarrow> nat \<Rightarrow>
   IntercomEvent list \<Rightarrow> 'w state \<times> 'c \<Rightarrow> (thrown + unit) \<times> ('w state \<times> 'c)" where
  "publishEventsWithProgress_loop pf env tot onProgress testMode i [] sc = (Inr (), sc)"
| "publishEventsWithProgress_loop pf env tot onProgress testMode i (event # rest) (s, c) =
     (case publishEvent pf env event testMode s of
        (Inl e, s1) \<Rightarrow> (Inl e, (s1, c))
      | (Inr r, s1) \<Rightarrow>
          (case onProgress r (i + 1) tot c of
             (Inl e, c1) \<Rightarrow> (Inl e, (log (OnProgress r (i + 1) tot) s1, c1))
           | (Inr u, c1) \<Rightarrow>
               (let s2 = log (OnProgress r (i + 1) tot) s1
                in publishEventsWithProgress_loop pf env tot onProgress testMode (Suc i) rest
                     (if tot > 1 then log (Delay 100) s2 else s2, c1))))"

definition publishEventsWithProgress ::
  "'w Platform \<Rightarrow> Env \<Rightarrow> IntercomEvent list \<Rightarrow>
   (ProcessingResult \<Rightarrow> nat \<Rightarrow> nat \<Rightarrow> 'c \<Rightarrow> (thrown + unit) \<times> 'c) \<Rightarrow> bool \<Rightarrow>
   'w state \<times> 'c \<Rightarrow> (thrown + unit) \<times> ('w state \<times> 'c)" where
  "publishEventsWithProgress pf env events onProgress testMode sc =
     publishEventsWithProgress_loop pf env (length events) onProgress testMode 0 events sc"

section \<open>Progress streamer (the stream of the upload route)\<close>

datatype Message =
  Start nat nat
| Progress ProcessingResult nat nat nat nat
| Complete nat nat nat "ProcessingResult list" "string list option"
| ErrorMessage string

text \<open>
  The variables the \<open>start\<close> function of the stream closes over: the array \<open>results\<close>,
  the two counters, and the controller with the messages enqueued so far and whether it
  has been closed.
\<close>

record StreamState =
  st_results :: "ProcessingResult list"
  st_successful :: nat
  st_failed :: nat
  enqueued :: "Message list"
  closed :: bool

text \<open>
  \<open>sendMessage\<close> enqueues the encoded message; the consumer does not cancel the stream
  during the run, so that \<open>controller.enqueue\<close> does not throw.
\<close>

definition sendMessage :: "Message \<Rightarrow> StreamState \<Rightarrow> StreamState" where
  "sendMessage m c = c\<lparr>enqueued := enqueued c @ [m]\<rparr>"

text \<open>The progress callback of lines 398-415.\<close>

definition progressCallback ::
  "ProcessingResult \<Rightarrow> nat \<Rightarrow> nat \<Rightarrow> StreamState \<Rightarrow> (thrown + unit) \<times> StreamState" where
  "progressCallback r idx tot c =
     (let c1 = c\<lparr>st_results := st_results c @ [r]\<rparr>;
          c2 = (if success r then c1\<lparr>st_successful := st_successful c1 + 1\<rparr>
                else c1\<lparr>st_failed := st_failed c1 + 1\<rparr>)
      in (Inr (), sendMessage (Progress r idx tot (st_successful c2) (st_failed c2)) c2))"

text \<open>The \<open>start\<close> function of the stream, lines 374-436.\<close>

definition streamStart ::
  "'w Platform \<Rightarrow> Env \<Rightarrow> IntercomEvent list \<Rightarrow> LumaAttendee list \<Rightarrow> string list \<Rightarrow>
   bool \<Rightarrow> 'w state \<Rightarrow> 'w state \<times> StreamState" where
  "streamStart pf env events attendees errs testMode s =
     (let c0 = sendMessage (Start (length events) (length attendees))
                 \<lparr>st_results = [], st_successful = 0, st_failed = 0, enqueued = [], closed = False\<rparr>
      in case publishEventsWithProgress pf env events progressCallback testMode (s, c0) of
           (Inr u, (s1, c1)) \<Rightarrow>
             (s1, (sendMessage
                     (Complete (length attendees) (st_successful c1) (st_failed c1) (st_results c1)
                        (if length errs > 0 then Some errs else None)) c1)\<lparr>closed := True\<rparr>)
         | (Inl e, (s1, c1)) \<Rightarrow>
             (s1, (sendMessage
                     (ErrorMessage (case errorMessageOf e of Some m \<Rightarrow> m | None \<Rightarrow> ''Unknown error occurred''))
                     c1)\<lparr>closed := True\<rparr>))"

section \<open>The upload route from the extraction loop on (POST, lines 312-445)\<close>



section \<open>Notions the properties are stated with\<close>

text \<open>
  The (email, event name) pairs an attendee gives rise to, in order: the registration
  event before the attendance event, each only under its flag.
\<close>

definition eventFacts :: "ProcessedAttendee \<Rightarrow> (string \<times> string) list" where
  "eventFacts a =
     (if hasRegistration a then [(email a, ''registered-for-event'')] else []) @
     (if hasAttendance a then [(email a, ''attended-event'')] else [])"

text \<open>The \<open>event_date\<close> entry of an event's metadata.\<close>

definition eventDateOf :: "IntercomEvent \<Rightarrow> string option" where
  "eventDateOf e =
     (case metadata e of
        None \<Rightarrow> None
      | Some md \<Rightarrow> (case map_of md ''event_date'' of None \<Rightarrow> None | Some v \<Rightarrow> v))"

text \<open>
  The event date in words: nothing without a non-empty date; the date alone when the time
  is missing or empty; else the date, a space and the time.
\<close>

definition dateThenTime :: "EventSettings option \<Rightarrow> string option" where
  "dateThenTime eventSettings =
     (case eventSettings of
        None \<Rightarrow> None
      | Some es \<Rightarrow>
          (case eventDate es of
             None \<Rightarrow> None
           | Some d \<Rightarrow>
               if d = [] then None
               else (case eventTime es of
                       None \<Rightarrow> Some d
                     | Some t \<Rightarrow> if t = [] then Some d else Some (d @ '' '' @ t))))"

text \<open>
  An error body of the shape the \<open>catch\<close> clause expects, \<open>{errors?: {message}[],
  request_id?}\<close> with texts for \<open>message\<close> and \<open>request_id\<close>, read off a value: the
  list of errors and the request id may be missing or \<open>null\<close>, other properties may be
  present, and a missing body reads as an empty one. \<open>None\<close> when the value is not of
  this shape.
\<close>

record ErrorBody =
  errors :: "string list option"
  request_id :: "string option"

fun messageOf :: "js \<Rightarrow> string option" where
  "messageOf (JObj kv) = (case map_of kv ''message'' of Some (JStr m) \<Rightarrow> Some m | other \<Rightarrow> None)"
| "messageOf v = None"

fun fieldMessages :: "js list \<Rightarrow> string list option" where
  "fieldMessages [] = Some []"
| "fieldMessages (e # es) =
     (case messageOf e of
        None \<Rightarrow> None
      | Some m \<Rightarrow> (case fieldMessages es of None \<Rightarrow> None | Some ms \<Rightarrow> Some (m # ms)))"

fun viewErrors :: "js \<Rightarrow> string list option option" where
  "viewErrors JUndefined = Some None"
| "viewErrors JNull = Some None"
| "viewErrors (JArr es) = (case fieldMessages es of None \<Rightarrow> None | Some ms \<Rightarrow> Some (Some ms))"
| "viewErrors v = None"

fun viewRequestId :: "js \<Rightarrow> string option option" where
  "viewRequestId JUndefined = Some None"
| "viewRequestId JNull = Some None"
| "viewRequestId (JStr r) = Some (Some r)"
| "viewRequestId v = None"

definition viewBody :: "js \<Rightarrow> ErrorBody option" where
  "viewBody body =
     (case (viewErrors (getPropOpt body ''errors''), viewRequestId (getPropOpt body ''request_id'')) of
        (Some es, Some r) \<Rightarrow> Some \<lparr>errors = es, request_id = r\<rparr>
      | other \<Rightarrow> None)"

text \<open>
  The result of \<open>publishEvent\<close> by what the event submission of the run returned: a
  success; or a failure with the message the \<open>catch\<close> clause builds from what the
  submission threw; or what the \<open>catch\<close> clause itself throws.
\<close>

definition submissionOutcome ::
  "'w Platform \<Rightarrow> IntercomEvent \<Rightarrow> thrown + unit \<Rightarrow> thrown + ProcessingResult" where
  "submissionOutcome pf e res =
     (case res of
        Inr u \<Rightarrow> Inr \<lparr>success = True, res_email = ev_email e, eventType = eventTypeOf e, error = None\<rparr>
      | Inl x \<Rightarrow>
          (case catchMessage pf x of
             Inr m \<Rightarrow> Inr \<lparr>success = False, res_email = ev_email e, eventType = eventTypeOf e,
                            error = Some m\<rparr>
           | Inl t \<Rightarrow> Inl t))"

text \<open>
  A thrown value the \<open>catch\<close> clause is written for: an API error whose body is of the
  expected shape, another error, or a value that is no error.
\<close>

definition expectedThrown :: "thrown \<Rightarrow> bool" where
  "expectedThrown x =
     (case x of
        IntercomError statusCode msg body \<Rightarrow> viewBody body \<noteq> None
      | Error msg \<Rightarrow> True
      | NonError \<Rightarrow> True)"

text \<open>
  What follows the search for the existing contact, by the result \<open>sres\<close> of the search and
  the workspace \<open>w2\<close> it leaves: the steps \<open>tail\<close> and the workspace \<open>w3\<close> after them. A
  failed search: a warning. No contact found: nothing. A contact found: nothing when
  there is neither a trimmed non-empty phone nor name; else one update of the first
  contact found with exactly those fields, and a warning after it when the update fails.
\<close>

definition afterSearch ::
  "'w IntercomClient \<Rightarrow> string \<Rightarrow> string option \<Rightarrow> string option \<Rightarrow>
   thrown + string list option \<Rightarrow> 'w \<Rightarrow> action list \<Rightarrow> 'w \<Rightarrow> bool" where
  "afterSearch client em nm ph sres w2 tail w3 =
     (case sres of
        Inl x \<Rightarrow> tail = [Warn (updateWarning em x)] \<and> w3 = w2
      | Inr found \<Rightarrow>
          (case found of
             Some (cid # others) \<Rightarrow>
               (if trimmedField ph = None \<and> trimmedField nm = None then tail = [] \<and> w3 = w2
                else
                  (case contacts_update client
                          \<lparr>contact_id = cid, upd_phone = trimmedField ph, upd_name = trimmedField nm\<rparr>
                          w2 of
                     (Inl x, w) \<Rightarrow>
                       tail = [ContactsUpdate \<lparr>contact_id = cid, upd_phone = trimmedField ph,
                                               upd_name = trimmedField nm\<rparr>,
                               Warn (updateWarning em x)] \<and> w3 = w
                   | (Inr u, w) \<Rightarrow>
                       tail = [ContactsUpdate \<lparr>contact_id = cid, upd_phone = trimmedField ph,
                                               upd_name = trimmedField nm\<rparr>] \<and> w3 = w))
           | other \<Rightarrow> tail = [] \<and> w3 = w2))"


text \<open>The email addresses a step of a run names.\<close>

fun actionEmails :: "action \<Rightarrow> string list" where
  "actionEmails (ContactsCreate u) = [ud_email u]"
| "actionEmails (ContactsSearch em) = [em]"
| "actionEmails (ContactsUpdate u) = []"
| "actionEmails (EventsCreate p) = [p_email p]"
| "actionEmails (Delay ms) = []"
| "actionEmails (Warn m) = []"
| "actionEmails (OnProgress r i n) = [res_email r]"

text \<open>
  What may follow the search for an existing contact: nothing, a warning, or one update
  that carries exactly the trimmed non-empty name and phone, at least one of them, with
  or without a warning after it.
\<close>

definition isUpdateOf :: "string option \<Rightarrow> string option \<Rightarrow> UpdateData \<Rightarrow> bool" where
  "isUpdateOf nm ph u =
     (upd_phone u = trimmedField ph \<and> upd_name u = trimmedField nm \<and>
      (upd_phone u \<noteq> None \<or> upd_name u \<noteq> None))"

fun isUpdateTail :: "string option \<Rightarrow> string option \<Rightarrow> action list \<Rightarrow> bool" where
  "isUpdateTail nm ph [] = True"
| "isUpdateTail nm ph [Warn m] = True"
| "isUpdateTail nm ph [ContactsUpdate u] = isUpdateOf nm ph u"
| "isUpdateTail nm ph [ContactsUpdate u, Warn m] = isUpdateOf nm ph u"
| "isUpdateTail nm ph other = False"

text \<open>
  The steps of the contact resolver for an event: the create call with the event's email
  and trimmed fields, then nothing, a warning, or the search by the same email and its
  update tail.
\<close>

fun isResolverTrace :: "IntercomEvent \<Rightarrow> action list \<Rightarrow> bool" where
  "isResolverTrace e (ContactsCreate u # rest) =
     (u = \<lparr>ud_email = ev_email e, ud_name = trimmedField (ev_name e),
            ud_phone = trimmedField (ev_phone_number e)\<rparr> \<and>
      (case rest of
         [] \<Rightarrow> True
       | [Warn m] \<Rightarrow> True
       | ContactsSearch em # tail \<Rightarrow>
           em = ev_email e \<and> isUpdateTail (ev_name e) (ev_phone_number e) tail
       | other \<Rightarrow> False))"
| "isResolverTrace e other = False"

text \<open>
  The steps the batch orchestrator is described by: an event submission, a call of the
  progress callback, a pacing wait of 100 ms.
\<close>

fun orchestratorStep :: "action \<Rightarrow> bool" where
  "orchestratorStep (EventsCreate p) = True"
| "orchestratorStep (OnProgress r i n) = True"
| "orchestratorStep (Delay ms) = (ms = 100)"
| "orchestratorStep other = False"

text \<open>The steps of a batch with a progress callback, for the events from index \<open>i\<close> on.\<close>

fun batchSteps :: "nat \<Rightarrow> nat \<Rightarrow> IntercomEvent list \<Rightarrow> ProcessingResult list \<Rightarrow> action list" where
  "batchSteps n i (e # es) (r # rs) =
     [EventsCreate (eventPayloadOf e), OnProgress r (i + 1) n] @
     (if n > 1 then [Delay 100] else []) @ batchSteps n (Suc i) es rs"
| "batchSteps n i es rs = []"

text \<open>The steps of a batch without a callback.\<close>

fun plainBatchSteps :: "nat \<Rightarrow> IntercomEvent list \<Rightarrow> action list" where
  "plainBatchSteps n [] = []"
| "plainBatchSteps n (e # es) =
     EventsCreate (eventPayloadOf e) # (if n > 1 then [Delay 100] else []) @ plainBatchSteps n es"

text \<open>The outcomes handed to the progress callback, in the order of the calls.\<close>

fun progressOutcomes :: "action list \<Rightarrow> ProcessingResult list" where
  "progressOutcomes [] = []"
| "progressOutcomes (OnProgress r i n # as) = r # progressOutcomes as"
| "progressOutcomes (a # as) = progressOutcomes as"

text \<open>The number of successes and of failures among outcomes.\<close>

definition successes :: "ProcessingResult list \<Rightarrow> nat" where
  "successes rs = length (filter success rs)"

definition failures :: "ProcessingResult list \<Rightarrow> nat" where
  "failures rs = length (filter (\<lambda>r. \<not> success r) rs)"

text \<open>The progress message for the outcome at position \<open>i\<close> of \<open>rs\<close>, in a batch of \<open>n\<close>.\<close>

definition progressMessage :: "nat \<Rightarrow> ProcessingResult list \<Rightarrow> nat \<Rightarrow> Message" where
  "progressMessage n rs i =
     Progress (rs ! i) (i + 1) n (successes (take (i + 1) rs)) (failures (take (i + 1) rs))"

text \<open>All the email addresses the steps of a run name.\<close>

definition traceEmails :: "action list \<Rightarrow> string list" where
  "traceEmails tr = concat (map actionEmails tr)"

text \<open>The variables of the stream before its first message.\<close>

definition emptyStream :: StreamState where
  "emptyStream = \<lparr>st_results = [], st_successful = 0, st_failed = 0, enqueued = [], closed = False\<rparr>"

text \<open>
  What holds of the stream between two calls of the progress callback: the start message,
  then one progress message per outcome gathered so far, with counters that count those
  outcomes, and the stream still open.
\<close>

definition streamInv :: "nat \<Rightarrow> nat \<Rightarrow> StreamState \<Rightarrow> bool" where
  "streamInv n m c =
     (enqueued c = Start n m # map (progressMessage n (st_results c)) [0..<length (st_results c)] \<and>
      st_successful c = successes (st_results c) \<and>
      st_failed c = failures (st_results c) \<and>
      \<not> closed c)"

section \<open>Sample environments, clients and inputs\<close>

definition liveEnv :: Env where
  "liveEnv = \<lparr>INTERCOM_ACCESS_TOKEN = Some ''tok-live'', INTERCOM_ACCESS_TOKEN_TEST = Some ''tok-test''\<rparr>"

definition noTokenEnv :: Env where
  "noTokenEnv = \<lparr>INTERCOM_ACCESS_TOKEN = None, INTERCOM_ACCESS_TOKEN_TEST = None\<rparr>"

text \<open>An API error with a body as the Intercom API sends it.\<close>

definition serverErrorBody :: js where
  "serverErrorBody =
     JObj [(''type'', JStr ''error.list''),
           (''request_id'', JStr ''req-1''),
           (''errors'', JArr [JObj [(''code'', JStr ''server_error''), (''message'', JStr ''boom'')],
                              JObj [(''code'', JStr ''parameter_invalid''),
                                    (''message'', JStr ''bad field'')]])]"

definition serverError :: thrown where
  "serverError = IntercomError (Some 500) ''Internal Server Error'' serverErrorBody"

text \<open>An API error whose body holds a text where the list of errors is expected.\<close>

definition gatewayError :: thrown where
  "gatewayError = IntercomError (Some 502) ''Bad Gateway'' (JObj [(''errors'', JStr ''upstream down'')])"

text \<open>A wording of the engine's \<open>TypeError\<close>s.\<close>

fun sampleWording :: "fault \<Rightarrow> string" where
  "sampleWording NotAFunction = ''errorBody.errors.map is not a function''"
| "sampleWording PropertyOfNull = ''Cannot read properties of null''"
| "sampleWording PropertyOfUndefined = ''Cannot read properties of undefined''"
| "sampleWording NoPrimitiveValue = ''Cannot convert object to primitive value''"

text \<open>
  A workspace that counts the event submissions it has seen: every contact already exists
  (the create call answers 409, the search finds one contact), the first event submission
  is accepted and every later one fails with a 500.
\<close>

definition scriptedClient :: "string \<Rightarrow> nat IntercomClient" where
  "scriptedClient token =
     \<lparr>contacts_create = (\<lambda>u w. (Inl (IntercomError (Some 409) ''Conflict'' JUndefined), w)),
      contacts_search = (\<lambda>em w. (Inr (Some [''contact-1'']), w)),
      contacts_update = (\<lambda>u w. (Inr (), w)),
      events_create = (\<lambda>p w. (if w = 0 then Inr () else Inl serverError, Suc w))\<rparr>"

definition scripted :: "nat Platform" where
  "scripted = \<lparr>newClient = scriptedClient, typeErrorMessage = sampleWording\<rparr>"

text \<open>
  A workspace in which every contact is new and every event submission fails with a 502
  whose body is not of the expected shape.
\<close>

definition gatewayClient :: "string \<Rightarrow> nat IntercomClient" where
  "gatewayClient token =
     \<lparr>contacts_create = (\<lambda>u w. (Inr (), w)),
      contacts_search = (\<lambda>em w. (Inr None, w)),
      contacts_update = (\<lambda>u w. (Inr (), w)),
      events_create = (\<lambda>p w. (Inl gatewayError, Suc w))\<rparr>"

definition behindGateway :: "nat Platform" where
  "behindGateway = \<lparr>newClient = gatewayClient, typeErrorMessage = sampleWording\<rparr>"

text \<open>A progress callback that throws at every call.\<close>

definition failingCallback ::
  "ProcessingResult \<Rightarrow> nat \<Rightarrow> nat \<Rightarrow> unit \<Rightarrow> (thrown + unit) \<times> unit" where
  "failingCallback r i n c = (Inl (Error ''stream is closed''), c)"

definition sampleRegistered :: IntercomEvent where
  "sampleRegistered =
     \<lparr>event_name = ''registered-for-event'', created_at = 1700000000, ev_email = ''a@x.com'',
      ev_name = Some '' Ann '', ev_phone_number = Some [], metadata = None\<rparr>"

definition sampleAttended :: IntercomEvent where
  "sampleAttended =
     \<lparr>event_name = ''attended-event'', created_at = 1700000100, ev_email = ''b@x.com'',
      ev_name = None, ev_phone_number = None, metadata = None\<rparr>"

definition timeOnlyAttendee :: ProcessedAttendee where
  "timeOnlyAttendee =
     \<lparr>email = ''a@x.com'', name = Some [], phone_number = Some [], registrationDate = Some [],
      attendanceDate = Some [], ticketType = Some [], status = Some ''registered'',
      hasJoinedEvent = None, hasRegistration = True, hasAttendance = False\<rparr>"

definition timeOnlySettings :: EventSettings where
  "timeOnlySettings =
     \<lparr>eventName = None, eventDate = None, eventTime = Some ''18:30'', presenter = None\<rparr>"

definition sampleMapping :: ColumnMapping where
  "sampleMapping =
     \<lparr>m_email = ''Email'', m_name = None, m_phone_number = None, m_registrationDate = None,
      m_attendanceDate = None, m_ticketType = None, m_status = Some ''Status'',
      m_hasJoinedEvent = None, m_approval_status = Some ''Approval''\<rparr>"

definition invitedRow :: "string \<rightharpoonup> string" where
  "invitedRow = [''Email'' \<mapsto> ''not-an-email'', ''Status'' \<mapsto> ''registered'', ''Approval'' \<mapsto> '' Invited '']"

definition registeredRow :: "string \<rightharpoonup> string" where
  "registeredRow = [''Email'' \<mapsto> ''a@x.com'', ''Status'' \<mapsto> ''Registered'', ''Approval'' \<mapsto> ''approved'']"

definition badRow :: "string \<rightharpoonup> string" where
  "badRow = [''Email'' \<mapsto> ''nobody'', ''Status'' \<mapsto> ''attended'', ''Approval'' \<mapsto> ''approved'']"

section \<open>String primitives: basic facts\<close>

lemma str_includes_sublist: "str_includes s w = sublist w s"
  by (induction s) (auto simp: sublist_Cons_right)





lemma truthy_present: "truthy v = present v"
  by (cases v) (auto simp: truthy_def present_def)

section \<open>The disposition classifier\<close>

lemma statusIncludes_contains: "statusIncludes st w = containsCaseInsensitive st w"
proof (cases st)
  case None
  then show ?thesis by (simp add: statusIncludes_def containsCaseInsensitive_def)
next
  case (Some s)
  have "sublist w (map lowerChar s) =
          (\<exists>pre mid post. s = pre @ mid @ post \<and> map lowerChar mid = w)"
  proof
    assume "sublist w (map lowerChar s)"
    then obtain p q where "map lowerChar s = p @ w @ q" by (auto simp: sublist_def)
    then have "\<exists>us vs. s = us @ vs \<and> p = map lowerChar us \<and> w @ q = map lowerChar vs"
      by (simp only: map_eq_append_conv)
    then obtain us vs where 1: "s = us @ vs" "w @ q = map lowerChar vs"
      by blast
    from 1(2) have "\<exists>ms ps. vs = ms @ ps \<and> w = map lowerChar ms \<and> q = map lowerChar ps"
      by (simp only: append_eq_map_conv)
    then obtain ms ps where 2: "vs = ms @ ps" "map lowerChar ms = w"
      by blast
    from 1 2 show "\<exists>pre mid post. s = pre @ mid @ post \<and> map lowerChar mid = w"
      by blast
  next
    assume "\<exists>pre mid post. s = pre @ mid @ post \<and> map lowerChar mid = w"
    then obtain pre mid post where "s = pre @ mid @ post" "map lowerChar mid = w" by blast
    then have "map lowerChar s = map lowerChar pre @ w @ map lowerChar post" by simp
    then show "sublist w (map lowerChar s)" unfolding sublist_def by blast
  qed
  with Some show ?thesis
    by (simp add: statusIncludes_def containsCaseInsensitive_def str_includes_sublist toLowerCase_def)
qed

lemma hasRegistration_classify:
  "hasRegistration (classify a) =
     (present (registrationDate a) \<or> containsCaseInsensitive (status a) ''registered'' \<or>
      containsCaseInsensitive (status a) ''registration'')"
  by (simp add: classify_def LumaAttendee.extend_def ProcessedAttendee.fields_def
      statusIncludes_contains truthy_present Let_def)

lemma hasAttendance_classify:
  "hasAttendance (classify a) =
     (hasJoinedEvent a = Some True \<or> present (attendanceDate a) \<or>
      containsCaseInsensitive (status a) ''attended'' \<or>
      containsCaseInsensitive (status a) ''checked'' \<or>
      containsCaseInsensitive (status a) ''present'')"
  by (simp add: classify_def LumaAttendee.extend_def ProcessedAttendee.fields_def
      statusIncludes_contains truthy_present Let_def)

lemma truncate_classify: "LumaAttendee.truncate (classify a) = a"
  by (simp add: classify_def LumaAttendee.extend_def ProcessedAttendee.fields_def
      LumaAttendee.truncate_def Let_def)

lemma classify_any_flags:
  "\<exists>a. hasRegistration (classify a) = r \<and> hasAttendance (classify a) = t"
proof -
  let ?a = "\<lparr>email = ''a@x.com'', name = None, phone_number = None,
             registrationDate = (if r then Some ''2024-01-01'' else None),
             attendanceDate = None, ticketType = None, status = None,
             hasJoinedEvent = (if t then Some True else None)\<rparr>"
  have "hasRegistration (classify ?a) = r \<and> hasAttendance (classify ?a) = t"
    by (simp add: classify_def LumaAttendee.extend_def ProcessedAttendee.fields_def
        statusIncludes_def truthy_def Let_def)
  then show ?thesis by blast
qed

text \<open>
  C4. The classifier keeps every attendee, in order and with its own fields, and sets
  \<open>hasRegistration\<close> exactly when the registration date is present or the status text
  contains "registered" or "registration" as a case-insensitive substring, and
  \<open>hasAttendance\<close> exactly when \<open>hasJoinedEvent\<close> is true, or the attendance date is
  present, or the status text contains "attended", "checked" or "present". The two flags
  are independent: every combination of them occurs. The classifier is a total function.
\<close>

theorem classifier_flags:
  "map hasRegistration (processAttendees attendees) =
     map (\<lambda>a. present (registrationDate a) \<or>
               containsCaseInsensitive (status a) ''registered'' \<or>
               containsCaseInsensitive (status a) ''registration'') attendees \<and>
   map hasAttendance (processAttendees attendees) =
     map (\<lambda>a. hasJoinedEvent a = Some True \<or> present (attendanceDate a) \<or>
               containsCaseInsensitive (status a) ''attended'' \<or>
               containsCaseInsensitive (status a) ''checked'' \<or>
               containsCaseInsensitive (status a) ''present'') attendees \<and>
   map LumaAttendee.truncate (processAttendees attendees) = attendees \<and>
   (\<forall>r t. \<exists>a. hasRegistration (classify a) = r \<and> hasAttendance (classify a) = t)"
proof -
  have 1: "map hasRegistration (processAttendees attendees) =
     map (\<lambda>a. present (registrationDate a) \<or>
               containsCaseInsensitive (status a) ''registered'' \<or>
               containsCaseInsensitive (status a) ''registration'') attendees"
    by (simp add: processAttendees_def hasRegistration_classify comp_def)
  have 2: "map hasAttendance (processAttendees attendees) =
     map (\<lambda>a. hasJoinedEvent a = Some True \<or> present (attendanceDate a) \<or>
               containsCaseInsensitive (status a) ''attended'' \<or>
               containsCaseInsensitive (status a) ''checked'' \<or>
               containsCaseInsensitive (status a) ''present'') attendees"
    by (simp add: processAttendees_def hasAttendance_classify comp_def)
  have 3: "map LumaAttendee.truncate (processAttendees attendees) = attendees"
    by (simp add: processAttendees_def truncate_classify comp_def)
  have 4: "\<forall>r t. \<exists>a. hasRegistration (classify a) = r \<and> hasAttendance (classify a) = t"
    using classify_any_flags by blast
  from 1 2 3 4 show ?thesis by (intro conjI)
qed

section \<open>The event deriver\<close>

lemma createIntercomEvents_loop_acc:
  "createIntercomEvents_loop gt dn es k as evs = evs @ createIntercomEvents_loop gt dn es k as []"
proof (induction as arbitrary: k evs)
  case Nil
  show ?case by simp
next
  case (Cons a as)
  show ?case
    apply (simp only: createIntercomEvents_loop.simps Let_def)
    apply (subst Cons.IH)
    apply (subst (2) Cons.IH)
    apply simp
    done
qed

lemma createIntercomEvents_loop_facts:
  "map (\<lambda>e. (ev_email e, event_name e)) (createIntercomEvents_loop gt dn es k as []) =
   concat (map eventFacts as)"
proof (induction as arbitrary: k)
  case Nil
  show ?case by simp
next
  case (Cons a as)
  show ?case
    apply (simp only: createIntercomEvents_loop.simps Let_def)
    apply (subst createIntercomEvents_loop_acc)
    apply (simp add: Cons.IH registrationEvent_def attendanceEvent_def)
    apply (simp add: eventFacts_def)
    done
qed

text \<open>
  C5. The events derived from a list of classified attendees are, attendee by attendee in
  input order, the attendee's "registered" event (under \<open>hasRegistration\<close>) followed by
  its "attended" event (under \<open>hasAttendance\<close>): two events when both flags are true,
  one when exactly one is, none when both are false.
\<close>

theorem createIntercomEvents_order:
  "map (\<lambda>e. (ev_email e, event_name e)) (createIntercomEvents gt dn attendees es) =
     concat (map eventFacts attendees) \<and>
   length (eventFacts a) = (if hasRegistration a then 1 else 0) + (if hasAttendance a then 1 else 0) \<and>
   eventFacts a =
     (if hasRegistration a \<and> hasAttendance a
      then [(email a, ''registered-for-event''), (email a, ''attended-event'')]
      else if hasRegistration a then [(email a, ''registered-for-event'')]
      else if hasAttendance a then [(email a, ''attended-event'')]
      else [])"
  by (simp add: createIntercomEvents_def createIntercomEvents_loop_facts eventFacts_def)

lemma combineEventDate_dateThenTime: "combineEventDate es = dateThenTime es"
  by (auto simp: combineEventDate_def dateThenTime_def truthy_def or_undefined_def Let_def
      split: option.splits)

lemma eventDateOf_registrationEvent:
  "eventDateOf (registrationEvent gt now a es) = combineEventDate es"
  by (simp add: eventDateOf_def registrationEvent_def eventMetadata_def split: option.splits)

lemma eventDateOf_attendanceEvent:
  "eventDateOf (attendanceEvent gt now a es) = combineEventDate es"
  by (simp add: eventDateOf_def attendanceEvent_def eventMetadata_def split: option.splits)

lemma createIntercomEvents_loop_dates:
  "map eventDateOf (createIntercomEvents_loop gt dn es k as []) =
   replicate (length (createIntercomEvents_loop gt dn es k as [])) (combineEventDate es)"
proof (induction as arbitrary: k)
  case Nil
  show ?case by simp
next
  case (Cons a as)
  show ?case
    apply (simp only: createIntercomEvents_loop.simps Let_def)
    apply (subst createIntercomEvents_loop_acc)
    apply (subst (2) createIntercomEvents_loop_acc)
    apply (simp add: Cons.IH eventDateOf_registrationEvent eventDateOf_attendanceEvent
        replicate_add [symmetric] del: replicate_add)
    done
qed

text \<open>
  C6, as the code has it. Every derived event carries the same \<open>event_date\<close>: the date and
  the time of the event settings joined by a space when both are non-empty, the date
  alone when only the date is, and no \<open>event_date\<close> at all when the date is missing or
  empty, whether or not a time is given.
\<close>

theorem event_date_metadata:
  "map eventDateOf (createIntercomEvents gt dn attendees es) =
   replicate (length (createIntercomEvents gt dn attendees es)) (dateThenTime es)"
  by (simp add: createIntercomEvents_def createIntercomEvents_loop_dates combineEventDate_dateThenTime)

text \<open>
  C6 as stated fails: with event settings that hold only a time (18:30), the event of a
  registered attendee has no \<open>event_date\<close>, not the time.
\<close>

theorem event_date_time_only_counterexample:
  "map eventDateOf
     (createIntercomEvents (\<lambda>s. None) (\<lambda>k. 0) [timeOnlyAttendee] (Some timeOnlySettings)) = [None] \<and>
   map eventDateOf
     (createIntercomEvents (\<lambda>s. None) (\<lambda>k. 0) [timeOnlyAttendee] (Some timeOnlySettings))
     \<noteq> [eventTime timeOnlySettings]"
  by (simp add: createIntercomEvents_def timeOnlyAttendee_def timeOnlySettings_def
      registrationEvent_def eventMetadata_def combineEventDate_def eventDateOf_def
      truthy_def or_undefined_def)

section \<open>The attendee extraction loop\<close>

lemma extractAttendees_loop_acc:
  "extractAttendees_loop mp tm i rows (as, es) =
     (as @ fst (extractAttendees_loop mp tm i rows ([], [])),
      es @ snd (extractAttendees_loop mp tm i rows ([], [])))"
proof (induction rows arbitrary: i as es)
  case Nil
  show ?case by simp
next
  case (Cons row rows)
  show ?case
  proof (cases "isInvited row mp")
    case True
    then show ?thesis using Cons.IH [of "Suc i" as es] by simp
  next
    case False
    show ?thesis
    proof (cases "parseAttendee row mp")
      case None
      let ?m = "''Row '' @ show_nat (i + 2) @ '': Missing or invalid email address''"
      from False None show ?thesis
        using Cons.IH [of "Suc i" as "es @ [?m]"] Cons.IH [of "Suc i" "[]" "[?m]"]
        by simp
    next
      case (Some a)
      let ?a = "if tm then a\<lparr>email := replaceEmailDomain (email a)\<rparr> else a"
      from False Some show ?thesis
        using Cons.IH [of "Suc i" "as @ [?a]" es] Cons.IH [of "Suc i" "[?a]" "[]"]
        by (simp add: Let_def)
    qed
  qed
qed

lemma extractAttendees_loop_append:
  "extractAttendees_loop mp tm i (pre @ post) acc =
     extractAttendees_loop mp tm (i + length pre) post (extractAttendees_loop mp tm i pre acc)"
proof (induction pre arbitrary: i acc)
  case Nil
  show ?case by simp
next
  case (Cons row pre)
  obtain as es where acc: "acc = (as, es)" by (cases acc)
  show ?case
    unfolding acc
    by (simp add: Cons.IH Let_def split: option.splits)
qed

text \<open>
  C9. When the mapping names an approval-status column and the row's cell in that column,
  trimmed and lower-cased, is "invited", the row is skipped before it is normalized: the
  attendees and the row-level error messages of the whole input are those of the rows
  before it followed by those of the rows after it (which keep their row numbers), so
  the row adds no attendee and no error message, and the derived events are those of
  the other rows.
\<close>

theorem invited_row_skipped:
  assumes "m_approval_status mp = Some col" and "col \<noteq> []"
    and "toLowerCase (trim (cell row col)) = ''invited''"
  shows "extractAttendees mp tm (pre @ row # post) =
           (fst (extractAttendees_loop mp tm 0 pre ([], [])) @
              fst (extractAttendees_loop mp tm (length pre + 1) post ([], [])),
            snd (extractAttendees_loop mp tm 0 pre ([], [])) @
              snd (extractAttendees_loop mp tm (length pre + 1) post ([], []))) \<and>
         createIntercomEvents gt dn
           (processAttendees (fst (extractAttendees mp tm (pre @ row # post)))) es =
         createIntercomEvents gt dn
           (processAttendees
              (fst (extractAttendees_loop mp tm 0 pre ([], [])) @
               fst (extractAttendees_loop mp tm (length pre + 1) post ([], [])))) es"
proof -
  from assms have inv: "isInvited row mp"
    by (simp add: isInvited_def truthy_def mapped_def)
  obtain as es' where pre: "extractAttendees_loop mp tm 0 pre ([], []) = (as, es')"
    by (cases "extractAttendees_loop mp tm 0 pre ([], [])")
  have "extractAttendees mp tm (pre @ row # post) =
          extractAttendees_loop mp tm (length pre) (row # post) (as, es')"
    by (simp add: extractAttendees_def extractAttendees_loop_append pre)
  also have "\<dots> = extractAttendees_loop mp tm (length pre + 1) post (as, es')"
    using inv by simp
  also have "\<dots> = (as @ fst (extractAttendees_loop mp tm (length pre + 1) post ([], [])),
                     es' @ snd (extractAttendees_loop mp tm (length pre + 1) post ([], [])))"
    by (rule extractAttendees_loop_acc)
  finally show ?thesis by (simp add: pre)
qed

theorem invited_row_skipped_witness:
  "m_approval_status sampleMapping = Some ''Approval'' \<and> ''Approval'' \<noteq> [] \<and>
   toLowerCase (trim (cell invitedRow ''Approval'')) = ''invited'' \<and>
   extractAttendees sampleMapping False ([registeredRow] @ invitedRow # [badRow]) =
     (fst (extractAttendees_loop sampleMapping False 0 [registeredRow] ([], [])) @ [],
      [] @ [''Row 4: Missing or invalid email address''])"
proof -
  have h1: "m_approval_status sampleMapping = Some ''Approval''"
    by (simp add: sampleMapping_def)
  have h2: "''Approval'' \<noteq> []" by simp
  have h3: "toLowerCase (trim (cell invitedRow ''Approval'')) = ''invited''"
    by code_simp
  have pre: "snd (extractAttendees_loop sampleMapping False 0 [registeredRow] ([], [])) = []"
    by code_simp
  have post: "extractAttendees_loop sampleMapping False (length [registeredRow] + 1) [badRow] ([], []) =
                ([], [''Row 4: Missing or invalid email address''])"
    by code_simp
  from invited_row_skipped
         [OF h1 h2 h3, where tm = False and pre = "[registeredRow]" and post = "[badRow]"
            and gt = "\<lambda>s. None" and dn = "\<lambda>k. 0" and es = None]
  have "extractAttendees sampleMapping False ([registeredRow] @ invitedRow # [badRow]) =
        (fst (extractAttendees_loop sampleMapping False 0 [registeredRow] ([], [])) @
           fst (extractAttendees_loop sampleMapping False (length [registeredRow] + 1) [badRow] ([], [])),
         snd (extractAttendees_loop sampleMapping False 0 [registeredRow] ([], [])) @
           snd (extractAttendees_loop sampleMapping False (length [registeredRow] + 1) [badRow] ([], [])))"
    by (rule conjunct1)
  with h1 h2 h3 pre post show ?thesis by simp
qed

section \<open>The contact resolver and the event publisher\<close>

lemma updateExisting_run:
  "\<exists>sres w2 tail w3.
     contacts_search client em (fst s) = (sres, w2) \<and>
     updateExisting client em nm ph s = (w3, snd s @ ContactsSearch em # tail) \<and>
     isUpdateTail nm ph tail \<and>
     afterSearch client em nm ph sres w2 tail w3"
proof (cases "contacts_search client em (fst s)")
  case (Pair res w1)
  show ?thesis
  proof (cases res)
    case (Inl x)
    with Pair show ?thesis by (simp add: updateExisting_def call_def log_def afterSearch_def)
  next
    case (Inr found)
    show ?thesis
    proof (cases found)
      case None
      with Pair Inr show ?thesis by (simp add: updateExisting_def call_def afterSearch_def)
    next
      case (Some ids)
      show ?thesis
      proof (cases ids)
        case Nil
        with Pair Inr Some show ?thesis by (simp add: updateExisting_def call_def afterSearch_def)
      next
        case (Cons contact others)
        let ?u = "\<lparr>contact_id = contact, upd_phone = trimmedField ph, upd_name = trimmedField nm\<rparr>"
        have keys: "(length (updateDataKeys ?u) > 1) =
                      (\<not> (trimmedField ph = None \<and> trimmedField nm = None))"
          by (auto simp: updateDataKeys_def split: option.splits)
        show ?thesis
        proof (cases "trimmedField ph = None \<and> trimmedField nm = None")
          case True
          with Pair Inr Some Cons keys show ?thesis
            by (simp add: updateExisting_def call_def afterSearch_def)
        next
          case False
          then have upd: "isUpdateOf nm ph ?u" by (auto simp: isUpdateOf_def)
          obtain r2 w2 where u2: "contacts_update client ?u w1 = (r2, w2)"
            by (cases "contacts_update client ?u w1")
          from False keys have k: "length (updateDataKeys ?u) > 1" by simp
          from Pair Inr Some Cons False k upd u2 show ?thesis
            by (cases r2) (simp_all add: updateExisting_def call_def log_def afterSearch_def)
        qed
      qed
    qed
  qed
qed

lemma ensureUserExists_ok:
  assumes "getIntercomClient pf env tm = Inr client"
  shows "\<exists>w pre. ensureUserExists pf env (ev_email e) (ev_name e) (ev_phone_number e) tm s =
                    (Inr (), (w, snd s @ pre)) \<and> isResolverTrace e pre"
proof -
  let ?u = "\<lparr>ud_email = ev_email e, ud_name = trimmedField (ev_name e),
             ud_phone = trimmedField (ev_phone_number e)\<rparr>"
  obtain res w1 where c: "contacts_create client ?u (fst s) = (res, w1)"
    by (cases "contacts_create client ?u (fst s)")
  show ?thesis
  proof (cases res)
    case (Inr u)
    with assms c show ?thesis by (simp add: ensureUserExists_def call_def)
  next
    case (Inl x)
    show ?thesis
    proof (cases x)
      case (Error m)
      with assms c Inl show ?thesis by (simp add: ensureUserExists_def call_def)
    next
      case NonError
      with assms c Inl show ?thesis by (simp add: ensureUserExists_def call_def)
    next
      case (IntercomError sc msg b)
      show ?thesis
      proof (cases "sc = Some 422 \<or> sc = Some 409")
        case False
        with assms c Inl IntercomError show ?thesis
          by (simp add: ensureUserExists_def call_def log_def)
      next
        case True
        obtain w tail where
          t: "updateExisting client (ev_email e) (ev_name e) (ev_phone_number e)
                (w1, snd s @ [ContactsCreate ?u]) =
              (w, (snd s @ [ContactsCreate ?u]) @ ContactsSearch (ev_email e) # tail)"
          and tl: "isUpdateTail (ev_name e) (ev_phone_number e) tail"
          using updateExisting_run
            [of client "ev_email e" "(w1, snd s @ [ContactsCreate ?u])" "ev_name e" "ev_phone_number e"]
          by auto
        have "ensureUserExists pf env (ev_email e) (ev_name e) (ev_phone_number e) tm s =
                (Inr (), (w, snd s @ (ContactsCreate ?u # ContactsSearch (ev_email e) # tail)))"
          using assms c Inl IntercomError True t
          by (auto simp add: ensureUserExists_def call_def)
        moreover have "isResolverTrace e (ContactsCreate ?u # ContactsSearch (ev_email e) # tail)"
          using tl by simp
        ultimately show ?thesis by blast
      qed
    qed
  qed
qed

lemma publishEvent_after_resolver:
  assumes tok: "getIntercomClient pf env tm = Inr client"
    and en: "ensureUserExists pf env (ev_email e) (ev_name e) (ev_phone_number e) tm s =
               (Inr (), (w1, tr))"
    and ev: "events_create client (eventPayloadOf e) w1 = (res, w)"
  shows "publishEvent pf env e tm s =
           (submissionOutcome pf e res, (w, tr @ [Delay 200, EventsCreate (eventPayloadOf e)]))"
proof (cases res)
  case (Inr u)
  with tok en ev show ?thesis
    by (simp add: publishEvent_def publishEvent_try_def call_def log_def Let_def
        submissionOutcome_def)
next
  case (Inl x)
  with tok en ev show ?thesis
    by (cases "catchMessage pf x")
       (simp_all add: publishEvent_def publishEvent_try_def call_def log_def Let_def
          submissionOutcome_def)
qed

lemma publishEvent_shape:
  assumes tok: "getIntercomClient pf env tm = Inr client"
  shows "\<exists>w w1 pre res.
           ensureUserExists pf env (ev_email e) (ev_name e) (ev_phone_number e) tm s =
             (Inr (), (w1, snd s @ pre)) \<and>
           isResolverTrace e pre \<and>
           events_create client (eventPayloadOf e) w1 = (res, w) \<and>
           publishEvent pf env e tm s =
             (submissionOutcome pf e res,
              (w, snd s @ pre @ [Delay 200, EventsCreate (eventPayloadOf e)]))"
proof -
  obtain w1 pre where
    en: "ensureUserExists pf env (ev_email e) (ev_name e) (ev_phone_number e) tm s =
           (Inr (), (w1, snd s @ pre))"
    and rt: "isResolverTrace e pre"
    using ensureUserExists_ok [OF assms] by blast
  obtain res w where ev: "events_create client (eventPayloadOf e) w1 = (res, w)"
    by (cases "events_create client (eventPayloadOf e) w1")
  from publishEvent_after_resolver [OF tok en ev] en rt ev show ?thesis by auto
qed

lemma publishEvent_without_client:
  "getIntercomClient pf env tm = Inl x \<Longrightarrow> publishEvent pf env e tm s = (Inl x, s)"
  by (simp add: publishEvent_def)

lemma submissionOutcome_fields:
  "submissionOutcome pf e res = Inr r \<Longrightarrow> res_email r = ev_email e \<and> eventType r = eventTypeOf e"
  by (auto simp: submissionOutcome_def split: sum.splits)

lemma publishEvent_cases:
  "(\<exists>x. getIntercomClient pf env tm = Inl x \<and> publishEvent pf env e tm s = (Inl x, s)) \<or>
   (\<exists>client res w pre.
       getIntercomClient pf env tm = Inr client \<and>
       publishEvent pf env e tm s =
         (res, (w, snd s @ pre @ [Delay 200, EventsCreate (eventPayloadOf e)])) \<and>
       isResolverTrace e pre \<and>
       (case res of
          Inr r \<Rightarrow> res_email r = ev_email e \<and> eventType r = eventTypeOf e
        | Inl t \<Rightarrow>
            (\<exists>x wa wb. events_create client (eventPayloadOf e) wa = (Inl x, wb) \<and>
                        catchMessage pf x = Inl t)))"
proof (cases "getIntercomClient pf env tm")
  case (Inl x)
  then show ?thesis by (simp add: publishEvent_without_client)
next
  case (Inr client)
  from publishEvent_shape [OF Inr, of e s] obtain w w1 pre res where
    rt: "isResolverTrace e pre" and
    ev: "events_create client (eventPayloadOf e) w1 = (res, w)" and
    pe: "publishEvent pf env e tm s =
             (submissionOutcome pf e res,
              (w, snd s @ pre @ [Delay 200, EventsCreate (eventPayloadOf e)]))"
    by blast
  have "case submissionOutcome pf e res of
          Inr r \<Rightarrow> res_email r = ev_email e \<and> eventType r = eventTypeOf e
        | Inl t \<Rightarrow>
            (\<exists>x wa wb. events_create client (eventPayloadOf e) wa = (Inl x, wb) \<and>
                        catchMessage pf x = Inl t)"
  proof (cases "submissionOutcome pf e res")
    case (Inr r)
    with submissionOutcome_fields [OF Inr] show ?thesis by simp
  next
    case (Inl t)
    then obtain x where "res = Inl x" "catchMessage pf x = Inl t"
      by (auto simp: submissionOutcome_def split: sum.splits)
    with ev Inl show ?thesis by auto
  qed
  with Inr rt pe show ?thesis by blast
qed

lemma getIntercomClient_throws_Error:
  "getIntercomClient pf env tm = Inl x \<Longrightarrow> \<exists>m. x = Error m"
  by (auto simp: getIntercomClient_def Let_def split: option.splits if_splits)

lemma messageOf_getProp: "messageOf e = Some m \<Longrightarrow> getProp e ''message'' = Inr (JStr m)"
  by (cases e) (auto split: option.splits js.splits)

lemma fieldMessages_mapMessages:
  "fieldMessages es = Some ms \<Longrightarrow> mapMessages es = Inr (map JStr ms)"
proof (induction es arbitrary: ms)
  case Nil
  then show ?case by simp
next
  case (Cons e es)
  from Cons.prems obtain m ms' where
    m: "messageOf e = Some m" and r: "fieldMessages es = Some ms'" and ms: "ms = m # ms'"
    by (auto split: option.splits)
  from Cons.IH [OF r] messageOf_getProp [OF m] ms show ?case by simp
qed

lemma joinJs_texts: "joinJs sep (map JStr ms) = Inr (join sep ms)"
  by (induction sep ms rule: join.induct) simp_all

lemma viewErrors_cases:
  assumes "viewErrors v = Some x"
  shows "(\<not> truthyJs v \<and> x = None) \<or>
         (\<exists>es ms. v = JArr es \<and> fieldMessages es = Some ms \<and> x = Some ms)"
proof (cases v)
  case (JArr es)
  with assms show ?thesis by (cases "fieldMessages es") auto
qed (use assms in auto)

lemma viewRequestId_cases:
  assumes "viewRequestId v = Some x"
  shows "(\<not> truthyJs v \<and> (x = None \<or> x = Some [])) \<or>
         (\<exists>r. v = JStr r \<and> r \<noteq> [] \<and> x = Some r)"
  using assms by (cases v) (auto split: option.splits)

lemma catchMessage_viewBody:
  assumes "viewBody body = Some b"
  shows "catchMessage pf (IntercomError sc msg body) =
           Inr (''Intercom API error ('' @ showStatus sc @ ''): '' @
                (case errors b of None \<Rightarrow> msg | Some ms \<Rightarrow> join '', '' ms) @
                (case request_id b of
                   None \<Rightarrow> []
                 | Some r \<Rightarrow> if r = [] then [] else '' Request ID: '' @ r))"
proof -
  from assms have ve: "viewErrors (getPropOpt body ''errors'') = Some (errors b)"
    and vr: "viewRequestId (getPropOpt body ''request_id'') = Some (request_id b)"
    by (auto simp: viewBody_def split: option.splits)
  have d: "(if truthyJs (getPropOpt body ''errors'')
            then errorDetailsOf (getPropOpt body ''errors'') else Inr msg) =
           Inr (case errors b of None \<Rightarrow> msg | Some ms \<Rightarrow> join '', '' ms)"
    using viewErrors_cases [OF ve]
    by (auto simp: errorDetailsOf_def fieldMessages_mapMessages joinJs_texts)
  from viewRequestId_cases [OF vr] show ?thesis
    unfolding catchMessage_def Let_def thrown.case d sum.case
    by auto
qed

text \<open>
  C2, as the code has it. When the access token selected by the test-mode flag is missing
  or empty, \<open>publishEvent\<close> throws the configuration error to its caller before any
  remote call. Otherwise it resolves the contact, waits 200 ms and submits the event, and
  what it gives back is determined by that submission of this run: when it is accepted, a
  success outcome with the event's email and kind and no error; when it throws, a failure
  outcome with the event's email and kind whose error is the message built from what was
  thrown. For an API error whose body is of the expected shape that message holds the
  status code, the per-field messages joined by a comma and a space (or the error's own
  message when the body has no list of errors) and, when the body gives a non-empty
  request id, that id; for another error it is the error's message, and for a thrown
  value that is no error it is "Unknown error".
\<close>

theorem publishEvent_returns_outcome:
  "(case getIntercomClient pf env tm of
      Inl x \<Rightarrow> publishEvent pf env e tm s = (Inl x, s) \<and> (\<exists>m. x = Error m)
    | Inr client \<Rightarrow>
        (\<exists>w1 pre res w.
            ensureUserExists pf env (ev_email e) (ev_name e) (ev_phone_number e) tm s =
              (Inr (), (w1, snd s @ pre)) \<and>
            events_create client (eventPayloadOf e) w1 = (res, w) \<and>
            publishEvent pf env e tm s =
              (submissionOutcome pf e res,
               (w, snd s @ pre @ [Delay 200, EventsCreate (eventPayloadOf e)])))) \<and>
   submissionOutcome pf e (Inr ()) =
     Inr \<lparr>success = True, res_email = ev_email e, eventType = eventTypeOf e, error = None\<rparr> \<and>
   (case viewBody body of
      None \<Rightarrow> True
    | Some b \<Rightarrow>
        submissionOutcome pf e (Inl (IntercomError sc msg body)) =
          Inr \<lparr>success = False, res_email = ev_email e, eventType = eventTypeOf e,
               error = Some (''Intercom API error ('' @ showStatus sc @ ''): '' @
                             (case errors b of None \<Rightarrow> msg | Some ms \<Rightarrow> join '', '' ms) @
                             (case request_id b of
                                None \<Rightarrow> []
                              | Some r \<Rightarrow> if r = [] then [] else '' Request ID: '' @ r))\<rparr>) \<and>
   submissionOutcome pf e (Inl (Error msg)) =
     Inr \<lparr>success = False, res_email = ev_email e, eventType = eventTypeOf e, error = Some msg\<rparr> \<and>
   submissionOutcome pf e (Inl NonError) =
     Inr \<lparr>success = False, res_email = ev_email e, eventType = eventTypeOf e,
          error = Some ''Unknown error''\<rparr>"
proof -
  have a: "case getIntercomClient pf env tm of
      Inl x \<Rightarrow> publishEvent pf env e tm s = (Inl x, s) \<and> (\<exists>m. x = Error m)
    | Inr client \<Rightarrow>
        (\<exists>w1 pre res w.
            ensureUserExists pf env (ev_email e) (ev_name e) (ev_phone_number e) tm s =
              (Inr (), (w1, snd s @ pre)) \<and>
            events_create client (eventPayloadOf e) w1 = (res, w) \<and>
            publishEvent pf env e tm s =
              (submissionOutcome pf e res,
               (w, snd s @ pre @ [Delay 200, EventsCreate (eventPayloadOf e)])))"
  proof (cases "getIntercomClient pf env tm")
    case (Inl x)
    with publishEvent_without_client [OF Inl] getIntercomClient_throws_Error [OF Inl]
    show ?thesis by simp
  next
    case (Inr client)
    from publishEvent_shape [OF Inr, of e s] Inr show ?thesis by (simp only: sum.case) blast
  qed
  have b: "submissionOutcome pf e (Inr ()) =
     Inr \<lparr>success = True, res_email = ev_email e, eventType = eventTypeOf e, error = None\<rparr>"
    by (simp add: submissionOutcome_def)
  have c: "case viewBody body of
      None \<Rightarrow> True
    | Some b \<Rightarrow>
        submissionOutcome pf e (Inl (IntercomError sc msg body)) =
          Inr \<lparr>success = False, res_email = ev_email e, eventType = eventTypeOf e,
               error = Some (''Intercom API error ('' @ showStatus sc @ ''): '' @
                             (case errors b of None \<Rightarrow> msg | Some ms \<Rightarrow> join '', '' ms) @
                             (case request_id b of
                                None \<Rightarrow> []
                              | Some r \<Rightarrow> if r = [] then [] else '' Request ID: '' @ r))\<rparr>"
  proof (cases "viewBody body")
    case None
    then show ?thesis by simp
  next
    case (Some b)
    from catchMessage_viewBody [OF Some, of pf sc msg] Some show ?thesis
      by (simp add: submissionOutcome_def)
  qed
  have d: "submissionOutcome pf e (Inl (Error msg)) =
     Inr \<lparr>success = False, res_email = ev_email e, eventType = eventTypeOf e, error = Some msg\<rparr>"
    by (simp add: submissionOutcome_def catchMessage_def)
  have f: "submissionOutcome pf e (Inl NonError) =
     Inr \<lparr>success = False, res_email = ev_email e, eventType = eventTypeOf e,
          error = Some ''Unknown error''\<rparr>"
    by (simp add: submissionOutcome_def catchMessage_def)
  show ?thesis by (rule conjI [OF a conjI [OF b conjI [OF c conjI [OF d f]]]])
qed

theorem publishEvent_returns_outcome_witness:
  "((case getIntercomClient scripted liveEnv False of
      Inl x \<Rightarrow> publishEvent scripted liveEnv sampleAttended False (1, []) = (Inl x, (1, [])) \<and>
               (\<exists>m. x = Error m)
    | Inr client \<Rightarrow>
        (\<exists>w1 pre res w.
            ensureUserExists scripted liveEnv (ev_email sampleAttended) (ev_name sampleAttended)
              (ev_phone_number sampleAttended) False (1, []) =
              (Inr (), (w1, snd (1::nat, []) @ pre)) \<and>
            events_create client (eventPayloadOf sampleAttended) w1 = (res, w) \<and>
            publishEvent scripted liveEnv sampleAttended False (1, []) =
              (submissionOutcome scripted sampleAttended res,
               (w, snd (1::nat, []) @ pre @ [Delay 200, EventsCreate (eventPayloadOf sampleAttended)])))) \<and>
    submissionOutcome scripted sampleAttended (Inr ()) =
      Inr \<lparr>success = True, res_email = ev_email sampleAttended,
           eventType = eventTypeOf sampleAttended, error = None\<rparr> \<and>
    (case viewBody serverErrorBody of
       None \<Rightarrow> True
     | Some b \<Rightarrow>
         submissionOutcome scripted sampleAttended
            (Inl (IntercomError (Some 500) ''Internal Server Error'' serverErrorBody)) =
           Inr \<lparr>success = False, res_email = ev_email sampleAttended,
                eventType = eventTypeOf sampleAttended,
                error = Some (''Intercom API error ('' @ showStatus (Some 500) @ ''): '' @
                              (case errors b of None \<Rightarrow> ''Internal Server Error''
                               | Some ms \<Rightarrow> join '', '' ms) @
                              (case request_id b of
                                 None \<Rightarrow> []
                               | Some r \<Rightarrow> if r = [] then [] else '' Request ID: '' @ r))\<rparr>) \<and>
    submissionOutcome scripted sampleAttended (Inl (Error ''Internal Server Error'')) =
      Inr \<lparr>success = False, res_email = ev_email sampleAttended,
           eventType = eventTypeOf sampleAttended, error = Some ''Internal Server Error''\<rparr> \<and>
    submissionOutcome scripted sampleAttended (Inl NonError) =
      Inr \<lparr>success = False, res_email = ev_email sampleAttended,
           eventType = eventTypeOf sampleAttended, error = Some ''Unknown error''\<rparr>) \<and>
   getIntercomClient scripted liveEnv False = Inr (scriptedClient ''tok-live'') \<and>
   viewBody serverErrorBody =
     Some \<lparr>errors = Some [''boom'', ''bad field''], request_id = Some ''req-1''\<rparr> \<and>
   publishEvent scripted liveEnv sampleAttended False (1, []) =
     (Inr \<lparr>success = False, res_email = ''b@x.com'', eventType = AttendedEvent,
           error = Some ''Intercom API error (500): boom, bad field Request ID: req-1''\<rparr>,
      (2, [ContactsCreate \<lparr>ud_email = ''b@x.com'', ud_name = None, ud_phone = None\<rparr>,
           ContactsSearch ''b@x.com'', Delay 200,
           EventsCreate \<lparr>p_event_name = ''attended-event'', p_created_at = 1700000100,
                         p_email = ''b@x.com'', p_metadata = None\<rparr>])) \<and>
   fst (publishEvent scripted liveEnv sampleAttended False (0, [])) =
     Inr \<lparr>success = True, res_email = ''b@x.com'', eventType = AttendedEvent, error = None\<rparr>"
proof -
  note t = publishEvent_returns_outcome
             [where pf = scripted and env = liveEnv and tm = False
                and e = sampleAttended and s = "(1, [])" and sc = "Some 500"
                and msg = "''Internal Server Error''" and body = serverErrorBody]
  have h: "getIntercomClient scripted liveEnv False = Inr (scriptedClient ''tok-live'')"
    by (simp add: getIntercomClient_def liveEnv_def scripted_def)
  have v: "viewBody serverErrorBody =
     Some \<lparr>errors = Some [''boom'', ''bad field''], request_id = Some ''req-1''\<rparr>"
    by code_simp
  have f: "publishEvent scripted liveEnv sampleAttended False (1, []) =
     (Inr \<lparr>success = False, res_email = ''b@x.com'', eventType = AttendedEvent,
           error = Some ''Intercom API error (500): boom, bad field Request ID: req-1''\<rparr>,
      (2, [ContactsCreate \<lparr>ud_email = ''b@x.com'', ud_name = None, ud_phone = None\<rparr>,
           ContactsSearch ''b@x.com'', Delay 200,
           EventsCreate \<lparr>p_event_name = ''attended-event'', p_created_at = 1700000100,
                         p_email = ''b@x.com'', p_metadata = None\<rparr>]))"
    by code_simp
  have g: "fst (publishEvent scripted liveEnv sampleAttended False (0, [])) =
     Inr \<lparr>success = True, res_email = ''b@x.com'', eventType = AttendedEvent, error = None\<rparr>"
    by code_simp
  show ?thesis by (rule conjI [OF t conjI [OF h conjI [OF v conjI [OF f g]]]])
qed

text \<open>
  C2 as stated fails: with no access token in the environment \<open>publishEvent\<close> throws the
  configuration error to its caller, before its \<open>try\<close> block and any remote call.
\<close>

theorem publishEvent_no_token_counterexample:
  "publishEvent scripted noTokenEnv sampleRegistered False (0, []) =
     (Inl (Error ''INTERCOM_ACCESS_TOKEN environment variable is not set. Please add it to your .env.local file.''),
      (0, []))"
  by (simp add: publishEvent_def getIntercomClient_def noTokenEnv_def)

text \<open>
  The \<open>catch\<close> clause of \<open>publishEvent\<close> itself throws on a body that is not of the
  expected shape: with the token set, an event submission answered by a 502 whose body
  holds a text where the list of errors is expected makes \<open>publishEvent\<close> throw a
  \<open>TypeError\<close> after the submission.
\<close>

lemma publishEvent_malformed_body_throws:
  "viewBody (JObj [(''errors'', JStr ''upstream down'')]) = None \<and>
   publishEvent behindGateway liveEnv sampleAttended False (0, []) =
     (Inl (Error ''errorBody.errors.map is not a function''),
      (1, [ContactsCreate \<lparr>ud_email = ''b@x.com'', ud_name = None, ud_phone = None\<rparr>,
           Delay 200,
           EventsCreate \<lparr>p_event_name = ''attended-event'', p_created_at = 1700000100,
                         p_email = ''b@x.com'', p_metadata = None\<rparr>]))"
  by code_simp




lemma isUpdateTail_quiet:
  "isUpdateTail nm ph tail \<Longrightarrow>
     filter orchestratorStep tail = [] \<and> progressOutcomes tail = [] \<and> traceEmails tail = []"
  by (induction nm ph tail rule: isUpdateTail.induct) (simp_all add: traceEmails_def)

lemma isResolverTrace_quiet:
  assumes "isResolverTrace e pre"
  shows "filter orchestratorStep pre = [] \<and> progressOutcomes pre = [] \<and>
         set (traceEmails pre) \<subseteq> {ev_email e}"
proof (cases pre)
  case Nil
  with assms show ?thesis by simp
next
  case (Cons a rest)
  with assms obtain u where a: "a = ContactsCreate u" by (cases a) simp_all
  from assms Cons a have u: "ud_email u = ev_email e" by auto
  show ?thesis
  proof (cases rest)
    case Nil
    with Cons a u show ?thesis by (simp add: traceEmails_def)
  next
    case (Cons b tail)
    note rest = this
    show ?thesis
    proof (cases b)
      case (ContactsSearch em)
      with assms \<open>pre = a # rest\<close> a rest
      have em: "em = ev_email e" and tl: "isUpdateTail (ev_name e) (ev_phone_number e) tail"
        by simp_all
      from isUpdateTail_quiet [OF tl] \<open>pre = a # rest\<close> a rest ContactsSearch em u show ?thesis
        by (simp add: traceEmails_def)
    next
      case (Warn m)
      with assms \<open>pre = a # rest\<close> a rest have "tail = []" by (cases tail) simp_all
      with \<open>pre = a # rest\<close> a rest Warn u show ?thesis by (simp add: traceEmails_def)
    qed (use assms \<open>pre = a # rest\<close> a rest in simp_all)
  qed
qed

section \<open>The batch orchestrator\<close>

lemma progressOutcomes_append:
  "progressOutcomes (xs @ ys) = progressOutcomes xs @ progressOutcomes ys"
  by (induction xs rule: progressOutcomes.induct) simp_all

lemma traceEmails_append: "traceEmails (xs @ ys) = traceEmails xs @ traceEmails ys"
  by (simp add: traceEmails_def)

lemma pace:
  "(if Suc 0 < n then log (Delay 100) s else s) =
     (fst s, snd s @ (if Suc 0 < n then [Delay 100] else []))"
  by (simp add: log_def)

lemma prefix_same_length: "prefix xs ys \<Longrightarrow> length xs = length ys \<Longrightarrow> xs = ys"
  by (auto simp: prefix_def)

lemma publishEvent_trace:
  "\<exists>res w new.
     publishEvent pf env e tm s = (res, (w, snd s @ new)) \<and>
     (case res of
        Inr r \<Rightarrow>
          res_email r = ev_email e \<and> eventType r = eventTypeOf e \<and>
          filter orchestratorStep new = [EventsCreate (eventPayloadOf e)]
      | Inl x \<Rightarrow> new = [] \<or> filter orchestratorStep new = [EventsCreate (eventPayloadOf e)]) \<and>
     progressOutcomes new = [] \<and>
     set (traceEmails new) \<subseteq> {ev_email e}"
proof -
  from publishEvent_cases [of pf env tm e s] show ?thesis
  proof (elim disjE exE conjE)
    fix x
    assume "publishEvent pf env e tm s = (Inl x, s)"
    then show ?thesis
      by (intro exI [of _ "Inl x"] exI [of _ "fst s"] exI [of _ "[]"]) (simp add: traceEmails_def)
  next
    fix client res w pre
    assume pe: "publishEvent pf env e tm s =
                  (res, (w, snd s @ pre @ [Delay 200, EventsCreate (eventPayloadOf e)]))"
      and rt: "isResolverTrace e pre"
      and r: "case res of
                Inr r \<Rightarrow> res_email r = ev_email e \<and> eventType r = eventTypeOf e
              | Inl t \<Rightarrow>
                  (\<exists>x wa wb. events_create client (eventPayloadOf e) wa = (Inl x, wb) \<and>
                              catchMessage pf x = Inl t)"
    let ?new = "pre @ [Delay 200, EventsCreate (eventPayloadOf e)]"
    have fl: "filter orchestratorStep ?new = [EventsCreate (eventPayloadOf e)]"
      using isResolverTrace_quiet [OF rt] by simp
    have po: "progressOutcomes ?new = []"
      using isResolverTrace_quiet [OF rt] by (simp add: progressOutcomes_append)
    have em: "set (traceEmails ?new) \<subseteq> {ev_email e}"
      using isResolverTrace_quiet [OF rt]
      by (auto simp add: traceEmails_def eventPayloadOf_def Let_def)
    have "case res of
        Inr r \<Rightarrow>
          res_email r = ev_email e \<and> eventType r = eventTypeOf e \<and>
          filter orchestratorStep ?new = [EventsCreate (eventPayloadOf e)]
      | Inl x \<Rightarrow> ?new = [] \<or> filter orchestratorStep ?new = [EventsCreate (eventPayloadOf e)]"
      using r fl by (cases res) simp_all
    with pe po em show ?thesis by blast
  qed
qed

lemma publishEvents_loop_any:
  "\<exists>res w new.
     publishEvents_loop pf env n tm events acc s = (res, (w, snd s @ new)) \<and>
     prefix (filter orchestratorStep new) (plainBatchSteps n events) \<and>
     (case res of
        Inr rs' \<Rightarrow>
          (\<exists>rs. rs' = acc @ rs \<and> map res_email rs = map ev_email events \<and>
                map eventType rs = map eventTypeOf events) \<and>
          filter orchestratorStep new = plainBatchSteps n events
      | Inl x \<Rightarrow> True)"
proof (induction events arbitrary: acc s)
  case Nil
  show ?case
    by (rule exI [of _ "Inr acc"], rule exI [of _ "fst s"], rule exI [of _ "[]"]) simp
next
  case (Cons e events)
  from publishEvent_trace [of pf env e tm s] obtain pres w1 pnew where
    pe: "publishEvent pf env e tm s = (pres, (w1, snd s @ pnew))" and
    pc: "case pres of
        Inr r \<Rightarrow>
          res_email r = ev_email e \<and> eventType r = eventTypeOf e \<and>
          filter orchestratorStep pnew = [EventsCreate (eventPayloadOf e)]
      | Inl x \<Rightarrow> pnew = [] \<or> filter orchestratorStep pnew = [EventsCreate (eventPayloadOf e)]"
    by blast
  show ?case
  proof (cases pres)
    case (Inl x)
    with pe have run: "publishEvents_loop pf env n tm (e # events) acc s = (Inl x, (w1, snd s @ pnew))"
      by simp
    from pc Inl have "prefix (filter orchestratorStep pnew) (plainBatchSteps n (e # events))"
      by auto
    with run show ?thesis
      by (intro exI [of _ "Inl x"] exI [of _ w1] exI [of _ pnew]) simp
  next
    case (Inr r)
    with pc have r: "res_email r = ev_email e" "eventType r = eventTypeOf e"
      and pf: "filter orchestratorStep pnew = [EventsCreate (eventPayloadOf e)]"
      by simp_all
    let ?mid = "pnew @ (if Suc 0 < n then [Delay 100] else [])"
    let ?s2 = "(w1, snd s @ ?mid)"
    from Cons.IH [of "acc @ [r]" ?s2] obtain res w' new where
      run': "publishEvents_loop pf env n tm events (acc @ [r]) ?s2 = (res, (w', snd ?s2 @ new))" and
      p: "prefix (filter orchestratorStep new) (plainBatchSteps n events)" and
      post: "case res of
               Inr rs' \<Rightarrow>
                 (\<exists>rs. rs' = (acc @ [r]) @ rs \<and> map res_email rs = map ev_email events \<and>
                       map eventType rs = map eventTypeOf events) \<and>
                 filter orchestratorStep new = plainBatchSteps n events
             | Inl x \<Rightarrow> True"
      by blast
    define new2 where "new2 = ?mid @ new"
    have run: "publishEvents_loop pf env n tm (e # events) acc s = (res, (w', snd s @ new2))"
      unfolding new2_def using pe Inr run' by (simp add: pace split del: if_split)
    have fl: "filter orchestratorStep new2 =
                EventsCreate (eventPayloadOf e) # (if Suc 0 < n then [Delay 100] else []) @
                filter orchestratorStep new"
      unfolding new2_def using pf by simp
    have q: "prefix (filter orchestratorStep new2) (plainBatchSteps n (e # events))"
      unfolding fl using p by simp
    have q4: "case res of
               Inr rs' \<Rightarrow>
                 (\<exists>rs. rs' = acc @ rs \<and> map res_email rs = map ev_email (e # events) \<and>
                       map eventType rs = map eventTypeOf (e # events)) \<and>
                 filter orchestratorStep new2 = plainBatchSteps n (e # events)
             | Inl x \<Rightarrow> True"
    proof (cases res)
      case (Inl x)
      then show ?thesis by simp
    next
      case (Inr rs')
      with post obtain rs where
        rs: "rs' = (acc @ [r]) @ rs" "map res_email rs = map ev_email events"
            "map eventType rs = map eventTypeOf events" and
        st: "filter orchestratorStep new = plainBatchSteps n events"
        by auto
      have "filter orchestratorStep new2 = plainBatchSteps n (e # events)"
        unfolding fl using st by simp
      moreover have "\<exists>qs. rs' = acc @ qs \<and> map res_email qs = map ev_email (e # events) \<and>
                map eventType qs = map eventTypeOf (e # events)"
        using rs r by (intro exI [of _ "r # rs"]) simp
      ultimately show ?thesis using Inr by simp
    qed
    from run q q4 show ?thesis by blast
  qed
qed

lemma withProgress_loop_any:
  "\<exists>res w new c1.
     publishEventsWithProgress_loop pf env n onProgress tm i events (s, c) =
       (res, ((w, snd s @ new), c1)) \<and>
     prefix (map res_email (progressOutcomes new)) (map ev_email events) \<and>
     prefix (map eventType (progressOutcomes new)) (map eventTypeOf events) \<and>
     (\<exists>rest. length rest \<le> 1 \<and>
        prefix (filter orchestratorStep new) (batchSteps n i events (progressOutcomes new @ rest))) \<and>
     (case res of
        Inr u \<Rightarrow>
          length (progressOutcomes new) = length events \<and>
          filter orchestratorStep new = batchSteps n i events (progressOutcomes new)
      | Inl x \<Rightarrow> True)"
proof (induction events arbitrary: i s c)
  case Nil
  show ?case
    by (rule exI [of _ "Inr ()"], rule exI [of _ "fst s"], rule exI [of _ "[]"], rule exI [of _ c])
       (simp add: exI [of _ "[]"])
next
  case (Cons e events)
  from publishEvent_trace [of pf env e tm s] obtain pres w pnew where
    pe: "publishEvent pf env e tm s = (pres, (w, snd s @ pnew))" and
    pc: "case pres of
        Inr r \<Rightarrow>
          res_email r = ev_email e \<and> eventType r = eventTypeOf e \<and>
          filter orchestratorStep pnew = [EventsCreate (eventPayloadOf e)]
      | Inl x \<Rightarrow> pnew = [] \<or> filter orchestratorStep pnew = [EventsCreate (eventPayloadOf e)]" and
    pq: "progressOutcomes pnew = []"
    by blast
  show ?case
  proof (cases pres)
    case (Inl x)
    with pe have run: "publishEventsWithProgress_loop pf env n onProgress tm i (e # events) (s, c) =
              (Inl x, ((w, snd s @ pnew), c))"
      by simp
    let ?r0 = "\<lparr>success = False, res_email = ev_email e, eventType = eventTypeOf e, error = None\<rparr>"
    from pc Inl have "prefix (filter orchestratorStep pnew)
                        (batchSteps n i (e # events) (progressOutcomes pnew @ [?r0]))"
      unfolding pq by auto
    then have "\<exists>rest. length rest \<le> 1 \<and>
                 prefix (filter orchestratorStep pnew)
                   (batchSteps n i (e # events) (progressOutcomes pnew @ rest))"
      by (intro exI [of _ "[?r0]"]) simp
    with run pq show ?thesis
      by (intro exI [of _ "Inl x"] exI [of _ w] exI [of _ pnew] exI [of _ c]) simp
  next
    case (Inr r)
    with pc have r: "res_email r = ev_email e" "eventType r = eventTypeOf e"
      and pf: "filter orchestratorStep pnew = [EventsCreate (eventPayloadOf e)]"
      by simp_all
    obtain cres c1 where cb: "onProgress r (i + 1) n c = (cres, c1)"
      by (cases "onProgress r (i + 1) n c")
    show ?thesis
    proof (cases cres)
      case (Inl x)
      let ?new = "pnew @ [OnProgress r (i + 1) n]"
      have run: "publishEventsWithProgress_loop pf env n onProgress tm i (e # events) (s, c) =
              (Inl x, ((w, snd s @ ?new), c1))"
        using pe \<open>pres = Inr r\<close> cb Inl by (simp add: log_def)
      have po: "progressOutcomes ?new = [r]"
        using pq by (simp add: progressOutcomes_append)
      have fl: "filter orchestratorStep ?new = [EventsCreate (eventPayloadOf e), OnProgress r (i + 1) n]"
        using pf by simp
      have "prefix (filter orchestratorStep ?new)
              (batchSteps n i (e # events) (progressOutcomes ?new @ []))"
        unfolding po fl by simp
      then have ex: "\<exists>rest. length rest \<le> 1 \<and>
                 prefix (filter orchestratorStep ?new)
                   (batchSteps n i (e # events) (progressOutcomes ?new @ rest))"
        by (intro exI [of _ "[]"]) simp
      have q1: "prefix (map res_email (progressOutcomes ?new)) (map ev_email (e # events))"
        unfolding po using r by simp
      have q2: "prefix (map eventType (progressOutcomes ?new)) (map eventTypeOf (e # events))"
        unfolding po using r by simp
      from run q1 q2 ex show ?thesis
        by (intro exI [of _ "Inl x"] exI [of _ w] exI [of _ ?new] exI [of _ c1]) simp
    next
      case (Inr u)
      let ?mid = "pnew @ [OnProgress r (i + 1) n] @ (if Suc 0 < n then [Delay 100] else [])"
      let ?s2 = "(w, snd s @ ?mid)"
      from Cons.IH [of "Suc i" ?s2 c1] obtain res w' new c2 rest where
        run': "publishEventsWithProgress_loop pf env n onProgress tm (Suc i) events (?s2, c1) =
                 (res, ((w', snd ?s2 @ new), c2))" and
        p1: "prefix (map res_email (progressOutcomes new)) (map ev_email events)" and
        p2: "prefix (map eventType (progressOutcomes new)) (map eventTypeOf events)" and
        lr: "length rest \<le> 1" and
        p3: "prefix (filter orchestratorStep new)
               (batchSteps n (Suc i) events (progressOutcomes new @ rest))" and
        post: "case res of
                 Inr u \<Rightarrow>
                   length (progressOutcomes new) = length events \<and>
                   filter orchestratorStep new = batchSteps n (Suc i) events (progressOutcomes new)
               | Inl x \<Rightarrow> True"
        by blast
      define new2 where "new2 = ?mid @ new"
      have run: "publishEventsWithProgress_loop pf env n onProgress tm i (e # events) (s, c) =
              (res, ((w', snd s @ new2), c2))"
        unfolding new2_def using pe \<open>pres = Inr r\<close> cb Inr run'
        by (simp add: pace log_def split del: if_split)
      have po: "progressOutcomes new2 = r # progressOutcomes new"
        unfolding new2_def using pq by (simp add: progressOutcomes_append)
      have fl: "filter orchestratorStep new2 =
                  [EventsCreate (eventPayloadOf e), OnProgress r (i + 1) n] @
                  (if Suc 0 < n then [Delay 100] else []) @ filter orchestratorStep new"
        unfolding new2_def using pf by simp
      have bs: "\<And>rs. batchSteps n i (e # events) (r # rs) =
                  [EventsCreate (eventPayloadOf e), OnProgress r (i + 1) n] @
                  (if Suc 0 < n then [Delay 100] else []) @
                  batchSteps n (Suc i) events rs"
        by simp
      have q1: "prefix (map res_email (progressOutcomes new2)) (map ev_email (e # events))"
        unfolding po using p1 r by simp
      have q2: "prefix (map eventType (progressOutcomes new2)) (map eventTypeOf (e # events))"
        unfolding po using p2 r by simp
      have "prefix (filter orchestratorStep new2)
                  (batchSteps n i (e # events) (progressOutcomes new2 @ rest))"
        unfolding po fl append_Cons bs using p3 by simp
      with lr have q3: "\<exists>rest. length rest \<le> 1 \<and>
                 prefix (filter orchestratorStep new2)
                   (batchSteps n i (e # events) (progressOutcomes new2 @ rest))"
        by blast
      have q4: "case res of
                 Inr u \<Rightarrow>
                   length (progressOutcomes new2) = length (e # events) \<and>
                   filter orchestratorStep new2 =
                     batchSteps n i (e # events) (progressOutcomes new2)
               | Inl x \<Rightarrow> True"
      proof (cases res)
        case (Inl x)
        then show ?thesis by simp
      next
        case (Inr v)
        with post have "length (progressOutcomes new) = length events"
          and "filter orchestratorStep new = batchSteps n (Suc i) events (progressOutcomes new)"
          by simp_all
        then show ?thesis unfolding po fl bs using Inr by simp
      qed
      from run q1 q2 q3 q4 show ?thesis by blast
    qed
  qed
qed

lemma expectedThrown_catchMessage:
  "expectedThrown x \<Longrightarrow> \<exists>m. catchMessage pf x = Inr m"
proof (cases x)
  case (IntercomError sc msg body)
  assume "expectedThrown x"
  with IntercomError obtain b where "viewBody body = Some b"
    by (auto simp: expectedThrown_def)
  from catchMessage_viewBody [OF this, of pf sc msg] IntercomError show ?thesis by simp
qed (simp_all add: catchMessage_def)

lemma publishEvent_gives_outcome:
  assumes tok: "getIntercomClient pf env tm = Inr client"
    and safe: "\<forall>p w. (case fst (events_create client p w) of
                         Inl x \<Rightarrow> expectedThrown x | Inr u \<Rightarrow> True)"
  shows "\<exists>r s1. publishEvent pf env e tm s = (Inr r, s1)"
proof -
  from publishEvent_shape [OF tok, of e s] obtain w w1 pre res where
    ev: "events_create client (eventPayloadOf e) w1 = (res, w)" and
    pe: "publishEvent pf env e tm s =
             (submissionOutcome pf e res,
              (w, snd s @ pre @ [Delay 200, EventsCreate (eventPayloadOf e)]))"
    by blast
  have "\<exists>r. submissionOutcome pf e res = Inr r"
  proof (cases res)
    case (Inr u)
    then show ?thesis by (simp add: submissionOutcome_def)
  next
    case (Inl x)
    from safe have "case fst (events_create client (eventPayloadOf e) w1) of
                      Inl x \<Rightarrow> expectedThrown x | Inr u \<Rightarrow> True"
      by blast
    with ev Inl have "expectedThrown x" by simp
    from expectedThrown_catchMessage [OF this, of pf] Inl show ?thesis
      by (auto simp: submissionOutcome_def)
  qed
  with pe show ?thesis by auto
qed

lemma publishEvents_loop_returns:
  assumes tok: "getIntercomClient pf env tm = Inr client"
    and safe: "\<forall>p w. (case fst (events_create client p w) of
                         Inl x \<Rightarrow> expectedThrown x | Inr u \<Rightarrow> True)"
  shows "\<exists>rs s1. publishEvents_loop pf env n tm events acc s = (Inr rs, s1)"
proof (induction events arbitrary: acc s)
  case Nil
  show ?case by simp
next
  case (Cons e events)
  from publishEvent_gives_outcome [OF tok safe, of e s] obtain r s1 where
    pe: "publishEvent pf env e tm s = (Inr r, s1)" by blast
  from Cons.IH [of "acc @ [r]" "if 1 < n then log (Delay 100) s1 else s1"] pe
  show ?case by simp
qed

lemma withProgress_loop_returns:
  assumes tok: "getIntercomClient pf env tm = Inr client"
    and safe: "\<forall>p w. (case fst (events_create client p w) of
                         Inl x \<Rightarrow> expectedThrown x | Inr u \<Rightarrow> True)"
    and cb: "\<forall>r i c. fst (onProgress r i n c) = Inr ()"
  shows "\<exists>s1 c1. publishEventsWithProgress_loop pf env n onProgress tm i events (s, c) =
                   (Inr (), (s1, c1))"
proof (induction events arbitrary: i s c)
  case Nil
  show ?case by simp
next
  case (Cons e events)
  from publishEvent_gives_outcome [OF tok safe, of e s] obtain r s1 where
    pe: "publishEvent pf env e tm s = (Inr r, s1)" by blast
  obtain cres c1 where c1: "onProgress r (i + 1) n c = (cres, c1)"
    by (cases "onProgress r (i + 1) n c")
  with cb have "cres = Inr ()" by (metis fst_conv)
  with c1 have c2: "onProgress r (Suc i) n c = (Inr (), c1)" by simp
  from Cons.IH [of "Suc i" "log (Delay 100) (log (OnProgress r (Suc i) n) s1)" c1]
       Cons.IH [of "Suc i" "log (OnProgress r (Suc i) n) s1" c1] pe c2
  show ?case by (simp add: Let_def)
qed

lemma eventTypeName_registrationEvent:
  "eventTypeName (eventTypeOf (registrationEvent gt now a es)) =
     event_name (registrationEvent gt now a es)"
  by (simp add: eventTypeOf_def registrationEvent_def)

lemma eventTypeName_attendanceEvent:
  "eventTypeName (eventTypeOf (attendanceEvent gt now a es)) =
     event_name (attendanceEvent gt now a es)"
  by (simp add: eventTypeOf_def attendanceEvent_def)

lemma eventTypeName_derived:
  "map (\<lambda>e. eventTypeName (eventTypeOf e)) (createIntercomEvents_loop gt dn es k as []) =
   map event_name (createIntercomEvents_loop gt dn es k as [])"
proof (induction as arbitrary: k)
  case Nil
  show ?case by simp
next
  case (Cons a as)
  show ?case
    apply (simp only: createIntercomEvents_loop.simps Let_def)
    apply (subst createIntercomEvents_loop_acc)
    apply (subst (2) createIntercomEvents_loop_acc)
    apply (simp add: Cons.IH eventTypeName_registrationEvent eventTypeName_attendanceEvent)
    done
qed

text \<open>
  C1, as the code has it. The outcomes a batch produces answer, one by one and in order,
  to the first events of the batch: each has the email of its event and the kind
  "registered-for-event" when that is the event's name and "attended-event" otherwise
  (for the events the deriver produces, this kind is the event's name). When the
  orchestrator returns, the outcomes answer to all the events: \<open>publishEvents\<close>
  returns one outcome per event, \<open>publishEventsWithProgress\<close> has handed one outcome per
  event to the callback. \<open>publishEvents\<close> returns whenever the access token is set and
  every value an event submission throws is one the \<open>catch\<close> clause is written for (an
  API error with a body of the expected shape, another error, or a value that is no
  error); \<open>publishEventsWithProgress\<close> returns whenever, in addition, the progress
  callback does not throw.
\<close>

theorem batch_outcomes:
  "(\<exists>res w new.
      publishEvents pf env events tm s = (res, (w, snd s @ new)) \<and>
      (case res of
         Inr rs \<Rightarrow> map res_email rs = map ev_email events \<and>
                   map eventType rs = map eventTypeOf events
       | Inl x \<Rightarrow> True)) \<and>
   (\<exists>res w new c1.
      publishEventsWithProgress pf env events onProgress tm (s, c) =
        (res, ((w, snd s @ new), c1)) \<and>
      prefix (map res_email (progressOutcomes new)) (map ev_email events) \<and>
      prefix (map eventType (progressOutcomes new)) (map eventTypeOf events) \<and>
      (case res of
         Inr u \<Rightarrow> map res_email (progressOutcomes new) = map ev_email events \<and>
                  map eventType (progressOutcomes new) = map eventTypeOf events
       | Inl x \<Rightarrow> True)) \<and>
   map (\<lambda>e. eventTypeName (eventTypeOf e)) (createIntercomEvents gt dn attendees es) =
     map event_name (createIntercomEvents gt dn attendees es) \<and>
   ((\<exists>client. getIntercomClient pf env tm = Inr client \<and>
        (\<forall>p w. (case fst (events_create client p w) of
                  Inl x \<Rightarrow> expectedThrown x | Inr u \<Rightarrow> True))) \<longrightarrow>
    (\<exists>rs s1. publishEvents pf env events tm s = (Inr rs, s1)) \<and>
    ((\<forall>r i c0. fst (onProgress r i (length events) c0) = Inr ()) \<longrightarrow>
     (\<exists>s1 c1. publishEventsWithProgress pf env events onProgress tm (s, c) = (Inr (), (s1, c1)))))"
proof -
  from publishEvents_loop_any [of pf env "length events" tm events "[]" s]
  obtain res w new where
    run: "publishEvents pf env events tm s = (res, (w, snd s @ new))" and
    post: "case res of
        Inr rs' \<Rightarrow>
          (\<exists>rs. rs' = [] @ rs \<and> map res_email rs = map ev_email events \<and>
                map eventType rs = map eventTypeOf events) \<and>
          filter orchestratorStep new = plainBatchSteps (length events) events
      | Inl x \<Rightarrow> True"
    unfolding publishEvents_def by blast
  have "case res of
         Inr rs \<Rightarrow> map res_email rs = map ev_email events \<and>
                   map eventType rs = map eventTypeOf events
       | Inl x \<Rightarrow> True"
    using post by (cases res) auto
  with run have 1: "\<exists>res w new.
      publishEvents pf env events tm s = (res, (w, snd s @ new)) \<and>
      (case res of
         Inr rs \<Rightarrow> map res_email rs = map ev_email events \<and>
                   map eventType rs = map eventTypeOf events
       | Inl x \<Rightarrow> True)"
    by blast
  from withProgress_loop_any [of pf env "length events" onProgress tm 0 events s c]
  obtain res' w' new' c1 where
    run': "publishEventsWithProgress pf env events onProgress tm (s, c) =
             (res', ((w', snd s @ new'), c1))" and
    p1: "prefix (map res_email (progressOutcomes new')) (map ev_email events)" and
    p2: "prefix (map eventType (progressOutcomes new')) (map eventTypeOf events)" and
    post': "case res' of
        Inr u \<Rightarrow>
          length (progressOutcomes new') = length events \<and>
          filter orchestratorStep new' = batchSteps (length events) 0 events (progressOutcomes new')
      | Inl x \<Rightarrow> True"
    unfolding publishEventsWithProgress_def by blast
  have "case res' of
         Inr u \<Rightarrow> map res_email (progressOutcomes new') = map ev_email events \<and>
                  map eventType (progressOutcomes new') = map eventTypeOf events
       | Inl x \<Rightarrow> True"
  proof (cases res')
    case (Inl x)
    then show ?thesis by simp
  next
    case (Inr u)
    with post' have len: "length (progressOutcomes new') = length events" by simp
    from p1 len have "map res_email (progressOutcomes new') = map ev_email events"
      by (intro prefix_same_length) simp_all
    moreover from p2 len have "map eventType (progressOutcomes new') = map eventTypeOf events"
      by (intro prefix_same_length) simp_all
    ultimately show ?thesis using Inr by simp
  qed
  with run' p1 p2 have 2: "\<exists>res w new c1.
      publishEventsWithProgress pf env events onProgress tm (s, c) =
        (res, ((w, snd s @ new), c1)) \<and>
      prefix (map res_email (progressOutcomes new)) (map ev_email events) \<and>
      prefix (map eventType (progressOutcomes new)) (map eventTypeOf events) \<and>
      (case res of
         Inr u \<Rightarrow> map res_email (progressOutcomes new) = map ev_email events \<and>
                  map eventType (progressOutcomes new) = map eventTypeOf events
       | Inl x \<Rightarrow> True)"
    by blast
  have 3: "map (\<lambda>e. eventTypeName (eventTypeOf e)) (createIntercomEvents gt dn attendees es) =
           map event_name (createIntercomEvents gt dn attendees es)"
    by (simp add: createIntercomEvents_def eventTypeName_derived)
  have 4: "(\<exists>client. getIntercomClient pf env tm = Inr client \<and>
        (\<forall>p w. (case fst (events_create client p w) of
                  Inl x \<Rightarrow> expectedThrown x | Inr u \<Rightarrow> True))) \<longrightarrow>
    (\<exists>rs s1. publishEvents pf env events tm s = (Inr rs, s1)) \<and>
    ((\<forall>r i c0. fst (onProgress r i (length events) c0) = Inr ()) \<longrightarrow>
     (\<exists>s1 c1. publishEventsWithProgress pf env events onProgress tm (s, c) = (Inr (), (s1, c1))))"
  proof (intro impI conjI)
    assume "\<exists>client. getIntercomClient pf env tm = Inr client \<and>
        (\<forall>p w. (case fst (events_create client p w) of
                  Inl x \<Rightarrow> expectedThrown x | Inr u \<Rightarrow> True))"
    then obtain client where tok: "getIntercomClient pf env tm = Inr client"
      and safe: "\<forall>p w. (case fst (events_create client p w) of
                  Inl x \<Rightarrow> expectedThrown x | Inr u \<Rightarrow> True)"
      by blast
    show "\<exists>rs s1. publishEvents pf env events tm s = (Inr rs, s1)"
      unfolding publishEvents_def by (rule publishEvents_loop_returns [OF tok safe])
    assume cb: "\<forall>r i c0. fst (onProgress r i (length events) c0) = Inr ()"
    show "\<exists>s1 c1. publishEventsWithProgress pf env events onProgress tm (s, c) = (Inr (), (s1, c1))"
      unfolding publishEventsWithProgress_def
      using withProgress_loop_returns
              [where onProgress = onProgress and n = "length events", OF tok safe cb]
      by blast
  qed
  from 1 2 3 4 show ?thesis by (intro conjI)
qed

theorem batch_outcomes_witness:
  "(\<exists>res w new.
      publishEvents scripted liveEnv [sampleRegistered, sampleAttended] False (0, []) =
        (res, (w, snd ((0::nat), ([]::action list)) @ new)) \<and>
      (case res of
         Inr rs \<Rightarrow> map res_email rs = map ev_email [sampleRegistered, sampleAttended] \<and>
                   map eventType rs = map eventTypeOf [sampleRegistered, sampleAttended]
       | Inl x \<Rightarrow> True)) \<and>
   (\<exists>res w new c1.
      publishEventsWithProgress scripted liveEnv [sampleRegistered, sampleAttended]
        progressCallback False ((0, []), emptyStream) =
        (res, ((w, snd ((0::nat), ([]::action list)) @ new), c1)) \<and>
      prefix (map res_email (progressOutcomes new)) (map ev_email [sampleRegistered, sampleAttended]) \<and>
      prefix (map eventType (progressOutcomes new)) (map eventTypeOf [sampleRegistered, sampleAttended]) \<and>
      (case res of
         Inr u \<Rightarrow> map res_email (progressOutcomes new) = map ev_email [sampleRegistered, sampleAttended] \<and>
                  map eventType (progressOutcomes new) = map eventTypeOf [sampleRegistered, sampleAttended]
       | Inl x \<Rightarrow> True)) \<and>
   map (\<lambda>e. eventTypeName (eventTypeOf e))
       (createIntercomEvents (\<lambda>s. None) (\<lambda>k. 0) [timeOnlyAttendee] None) =
     map event_name (createIntercomEvents (\<lambda>s. None) (\<lambda>k. 0) [timeOnlyAttendee] None) \<and>
   getIntercomClient scripted liveEnv False = Inr (scriptedClient ''tok-live'') \<and>
   (\<forall>p w. (case fst (events_create (scriptedClient ''tok-live'') p w) of
             Inl x \<Rightarrow> expectedThrown x | Inr u \<Rightarrow> True)) \<and>
   (\<forall>r i c0. fst (progressCallback r i (length [sampleRegistered, sampleAttended]) c0) = Inr ()) \<and>
   (\<exists>rs s1. publishEvents scripted liveEnv [sampleRegistered, sampleAttended] False (0, []) =
              (Inr rs, s1)) \<and>
   (\<exists>s1 c1. publishEventsWithProgress scripted liveEnv [sampleRegistered, sampleAttended]
              progressCallback False ((0, []), emptyStream) = (Inr (), (s1, c1))) \<and>
   fst (publishEvents scripted liveEnv [sampleRegistered, sampleAttended] False (0, [])) =
     Inr [\<lparr>success = True, res_email = ''a@x.com'', eventType = RegisteredForEvent, error = None\<rparr>,
          \<lparr>success = False, res_email = ''b@x.com'', eventType = AttendedEvent,
           error = Some ''Intercom API error (500): boom, bad field Request ID: req-1''\<rparr>] \<and>
   progressOutcomes
     (snd (fst (snd (publishEventsWithProgress scripted liveEnv [sampleRegistered, sampleAttended]
                       progressCallback False ((0, []), emptyStream))))) =
     [\<lparr>success = True, res_email = ''a@x.com'', eventType = RegisteredForEvent, error = None\<rparr>,
      \<lparr>success = False, res_email = ''b@x.com'', eventType = AttendedEvent,
       error = Some ''Intercom API error (500): boom, bad field Request ID: req-1''\<rparr>]"
proof -
  note t = batch_outcomes
             [where pf = scripted and env = liveEnv
                and events = "[sampleRegistered, sampleAttended]" and tm = False and s = "(0, [])"
                and onProgress = progressCallback
                and c = emptyStream and gt = "\<lambda>s. None" and dn = "\<lambda>k. 0"
                and attendees = "[timeOnlyAttendee]" and es = None]
  note a = t [THEN conjunct1]
  note b = t [THEN conjunct2, THEN conjunct1]
  note c = t [THEN conjunct2, THEN conjunct2, THEN conjunct1]
  note imp = t [THEN conjunct2, THEN conjunct2, THEN conjunct2]
  have h1: "getIntercomClient scripted liveEnv False = Inr (scriptedClient ''tok-live'')"
    by (simp add: getIntercomClient_def liveEnv_def scripted_def)
  have ex: "expectedThrown serverError" by code_simp
  have h2: "\<forall>p w. (case fst (events_create (scriptedClient ''tok-live'') p w) of
             Inl x \<Rightarrow> expectedThrown x | Inr u \<Rightarrow> True)"
    using ex by (simp add: scriptedClient_def)
  have h3: "\<forall>r i c0. fst (progressCallback r i (length [sampleRegistered, sampleAttended]) c0) = Inr ()"
    by (simp add: progressCallback_def Let_def)
  have hyp: "\<exists>client. getIntercomClient scripted liveEnv False = Inr client \<and>
        (\<forall>p w. (case fst (events_create client p w) of
                  Inl x \<Rightarrow> expectedThrown x | Inr u \<Rightarrow> True))"
    using h1 h2 by blast
  note d = mp [OF imp hyp, THEN conjunct1]
  note e = mp [OF mp [OF imp hyp, THEN conjunct2] h3]
  have f: "fst (publishEvents scripted liveEnv [sampleRegistered, sampleAttended] False (0, [])) =
     Inr [\<lparr>success = True, res_email = ''a@x.com'', eventType = RegisteredForEvent, error = None\<rparr>,
          \<lparr>success = False, res_email = ''b@x.com'', eventType = AttendedEvent,
           error = Some ''Intercom API error (500): boom, bad field Request ID: req-1''\<rparr>]"
    by code_simp
  have g: "progressOutcomes
     (snd (fst (snd (publishEventsWithProgress scripted liveEnv [sampleRegistered, sampleAttended]
                       progressCallback False ((0, []), emptyStream))))) =
     [\<lparr>success = True, res_email = ''a@x.com'', eventType = RegisteredForEvent, error = None\<rparr>,
      \<lparr>success = False, res_email = ''b@x.com'', eventType = AttendedEvent,
       error = Some ''Intercom API error (500): boom, bad field Request ID: req-1''\<rparr>]"
    by code_simp
  show ?thesis
    by (rule conjI [OF a conjI [OF b conjI [OF c conjI [OF h1 conjI [OF h2 conjI [OF h3
          conjI [OF d conjI [OF e conjI [OF f g]]]]]]]]])
qed

text \<open>
  C1 as stated fails: with no access token in the environment a batch of one event
  produces no outcome at all (\<open>publishEvents\<close> throws and the progress callback is
  never called), and with a progress callback that throws a batch of two events produces
  one outcome.
\<close>

theorem batch_no_token_counterexample:
  "fst (publishEvents scripted noTokenEnv [sampleRegistered] False (0, [])) =
     Inl (Error ''INTERCOM_ACCESS_TOKEN environment variable is not set. Please add it to your .env.local file.'') \<and>
   progressOutcomes
     (snd (fst (snd (publishEventsWithProgress scripted noTokenEnv [sampleRegistered]
                       progressCallback False ((0, []), emptyStream))))) = [] \<and>
   length ([] :: ProcessingResult list) \<noteq> length [sampleRegistered] \<and>
   progressOutcomes
     (snd (fst (snd (publishEventsWithProgress scripted liveEnv [sampleRegistered, sampleAttended]
                       failingCallback False ((0, []), ()))))) =
     [\<lparr>success = True, res_email = ''a@x.com'', eventType = RegisteredForEvent, error = None\<rparr>] \<and>
   length [\<lparr>success = True, res_email = ''a@x.com'', eventType = RegisteredForEvent, error = None\<rparr>]
     \<noteq> length [sampleRegistered, sampleAttended]"
  by code_simp

text \<open>
  C7, as the code has it. In every run of \<open>publishEventsWithProgress\<close> the orchestrator
  steps are, event by event in order: the submission of event i, the call of the
  callback with its outcome, i + 1 and the number of events, and then a pacing wait of
  100 ms exactly when the batch has more than one event, also after the last event. A
  run that throws has done a first part of these steps (the callback has been called
  with all outcomes but at most one); a run that returns has done them all.
  \<open>publishEvents\<close> does the same without the callback and returns one outcome per
  event; when it throws, it has done a first part of its steps.
\<close>

theorem batch_step_order:
  "(\<exists>res w new c1.
      publishEventsWithProgress pf env events onProgress tm (s, c) =
        (res, ((w, snd s @ new), c1)) \<and>
      (\<exists>rest. length rest \<le> 1 \<and>
         prefix (filter orchestratorStep new)
           (batchSteps (length events) 0 events (progressOutcomes new @ rest))) \<and>
      (case res of
         Inr u \<Rightarrow>
           length (progressOutcomes new) = length events \<and>
           filter orchestratorStep new =
             batchSteps (length events) 0 events (progressOutcomes new)
       | Inl x \<Rightarrow> True)) \<and>
   (\<exists>res w new.
      publishEvents pf env events tm s = (res, (w, snd s @ new)) \<and>
      prefix (filter orchestratorStep new) (plainBatchSteps (length events) events) \<and>
      (case res of
         Inr rs \<Rightarrow>
           length rs = length events \<and>
           filter orchestratorStep new = plainBatchSteps (length events) events
       | Inl x \<Rightarrow> True))"
proof -
  from withProgress_loop_any [of pf env "length events" onProgress tm 0 events s c]
  obtain res' w' new' c1 where
    run': "publishEventsWithProgress pf env events onProgress tm (s, c) =
             (res', ((w', snd s @ new'), c1))" and
    p3: "\<exists>rest. length rest \<le> 1 \<and>
           prefix (filter orchestratorStep new')
             (batchSteps (length events) 0 events (progressOutcomes new' @ rest))" and
    post': "case res' of
        Inr u \<Rightarrow>
          length (progressOutcomes new') = length events \<and>
          filter orchestratorStep new' = batchSteps (length events) 0 events (progressOutcomes new')
      | Inl x \<Rightarrow> True"
    unfolding publishEventsWithProgress_def by blast
  from run' p3 post' have 1: "\<exists>res w new c1.
      publishEventsWithProgress pf env events onProgress tm (s, c) =
        (res, ((w, snd s @ new), c1)) \<and>
      (\<exists>rest. length rest \<le> 1 \<and>
         prefix (filter orchestratorStep new)
           (batchSteps (length events) 0 events (progressOutcomes new @ rest))) \<and>
      (case res of
         Inr u \<Rightarrow>
           length (progressOutcomes new) = length events \<and>
           filter orchestratorStep new =
             batchSteps (length events) 0 events (progressOutcomes new)
       | Inl x \<Rightarrow> True)"
    by blast
  from publishEvents_loop_any [of pf env "length events" tm events "[]" s]
  obtain res w new where
    run: "publishEvents pf env events tm s = (res, (w, snd s @ new))" and
    p: "prefix (filter orchestratorStep new) (plainBatchSteps (length events) events)" and
    post: "case res of
        Inr rs' \<Rightarrow>
          (\<exists>rs. rs' = [] @ rs \<and> map res_email rs = map ev_email events \<and>
                map eventType rs = map eventTypeOf events) \<and>
          filter orchestratorStep new = plainBatchSteps (length events) events
      | Inl x \<Rightarrow> True"
    unfolding publishEvents_def by blast
  have "case res of
         Inr rs \<Rightarrow>
           length rs = length events \<and>
           filter orchestratorStep new = plainBatchSteps (length events) events
       | Inl x \<Rightarrow> True"
  proof (cases res)
    case (Inl x)
    then show ?thesis by simp
  next
    case (Inr rs)
    with post have "map res_email rs = map ev_email events"
      and "filter orchestratorStep new = plainBatchSteps (length events) events"
      by auto
    then show ?thesis using Inr map_eq_imp_length_eq [of res_email rs ev_email events] by simp
  qed
  with run p have 2: "\<exists>res w new.
      publishEvents pf env events tm s = (res, (w, snd s @ new)) \<and>
      prefix (filter orchestratorStep new) (plainBatchSteps (length events) events) \<and>
      (case res of
         Inr rs \<Rightarrow>
           length rs = length events \<and>
           filter orchestratorStep new = plainBatchSteps (length events) events
       | Inl x \<Rightarrow> True)"
    by blast
  from 1 2 show ?thesis by (rule conjI)
qed

theorem batch_step_order_witness:
  "((\<exists>res w new c1.
      publishEventsWithProgress scripted liveEnv [sampleRegistered] progressCallback False
        ((0, []), emptyStream) =
        (res, ((w, snd ((0::nat), ([]::action list)) @ new), c1)) \<and>
      (\<exists>rest. length rest \<le> 1 \<and>
         prefix (filter orchestratorStep new)
           (batchSteps (length [sampleRegistered]) 0 [sampleRegistered] (progressOutcomes new @ rest))) \<and>
      (case res of
         Inr u \<Rightarrow>
           length (progressOutcomes new) = length [sampleRegistered] \<and>
           filter orchestratorStep new =
             batchSteps (length [sampleRegistered]) 0 [sampleRegistered] (progressOutcomes new)
       | Inl x \<Rightarrow> True)) \<and>
   (\<exists>res w new.
      publishEvents scripted liveEnv [sampleRegistered] False (0, []) =
        (res, (w, snd ((0::nat), ([]::action list)) @ new)) \<and>
      prefix (filter orchestratorStep new)
        (plainBatchSteps (length [sampleRegistered]) [sampleRegistered]) \<and>
      (case res of
         Inr rs \<Rightarrow>
           length rs = length [sampleRegistered] \<and>
           filter orchestratorStep new = plainBatchSteps (length [sampleRegistered]) [sampleRegistered]
       | Inl x \<Rightarrow> True))) \<and>
   publishEventsWithProgress scripted liveEnv [sampleRegistered] progressCallback False
     ((0, []), emptyStream) =
     (Inr (),
      ((1, [ContactsCreate \<lparr>ud_email = ''a@x.com'', ud_name = Some ''Ann'', ud_phone = None\<rparr>,
            ContactsSearch ''a@x.com'',
            ContactsUpdate \<lparr>contact_id = ''contact-1'', upd_phone = None, upd_name = Some ''Ann''\<rparr>,
            Delay 200,
            EventsCreate \<lparr>p_event_name = ''registered-for-event'', p_created_at = 1700000000,
                          p_email = ''a@x.com'', p_metadata = None\<rparr>,
            OnProgress \<lparr>success = True, res_email = ''a@x.com'', eventType = RegisteredForEvent,
                        error = None\<rparr> 1 1]),
       \<lparr>st_results = [\<lparr>success = True, res_email = ''a@x.com'', eventType = RegisteredForEvent,
                        error = None\<rparr>],
        st_successful = 1, st_failed = 0,
        enqueued = [Progress \<lparr>success = True, res_email = ''a@x.com'', eventType = RegisteredForEvent,
                              error = None\<rparr> 1 1 1 0],
        closed = False\<rparr>))"
proof -
  note t = batch_step_order
             [where pf = scripted and env = liveEnv and events = "[sampleRegistered]"
                and onProgress = progressCallback and tm = False and s = "(0, [])" and c = emptyStream]
  have f: "publishEventsWithProgress scripted liveEnv [sampleRegistered] progressCallback False
     ((0, []), emptyStream) =
     (Inr (),
      ((1, [ContactsCreate \<lparr>ud_email = ''a@x.com'', ud_name = Some ''Ann'', ud_phone = None\<rparr>,
            ContactsSearch ''a@x.com'',
            ContactsUpdate \<lparr>contact_id = ''contact-1'', upd_phone = None, upd_name = Some ''Ann''\<rparr>,
            Delay 200,
            EventsCreate \<lparr>p_event_name = ''registered-for-event'', p_created_at = 1700000000,
                          p_email = ''a@x.com'', p_metadata = None\<rparr>,
            OnProgress \<lparr>success = True, res_email = ''a@x.com'', eventType = RegisteredForEvent,
                        error = None\<rparr> 1 1]),
       \<lparr>st_results = [\<lparr>success = True, res_email = ''a@x.com'', eventType = RegisteredForEvent,
                        error = None\<rparr>],
        st_successful = 1, st_failed = 0,
        enqueued = [Progress \<lparr>success = True, res_email = ''a@x.com'', eventType = RegisteredForEvent,
                              error = None\<rparr> 1 1 1 0],
        closed = False\<rparr>))"
    by code_simp
  show ?thesis by (rule conjI [OF t f])
qed

text \<open>
  C7 as stated fails: in a batch of two events the pacing wait also follows the last
  event.
\<close>

theorem pacing_after_last_counterexample:
  "filter orchestratorStep
     (snd (fst (snd (publishEventsWithProgress scripted liveEnv [sampleRegistered, sampleAttended]
                       progressCallback False ((0, []), emptyStream))))) =
   [EventsCreate (eventPayloadOf sampleRegistered),
    OnProgress \<lparr>success = True, res_email = ''a@x.com'', eventType = RegisteredForEvent, error = None\<rparr> 1 2,
    Delay 100,
    EventsCreate (eventPayloadOf sampleAttended),
    OnProgress \<lparr>success = False, res_email = ''b@x.com'', eventType = AttendedEvent,
                error = Some ''Intercom API error (500): boom, bad field Request ID: req-1''\<rparr> 2 2,
    Delay 100]"
  by code_simp

section \<open>The progress streamer\<close>

lemma progressMessage_snoc:
  "j < length rs \<Longrightarrow> progressMessage n (rs @ [r]) j = progressMessage n rs j"
  by (simp add: progressMessage_def nth_append)

lemma progressCallback_inv:
  assumes "streamInv n m c"
  shows "\<exists>c1. progressCallback r (length (st_results c) + 1) n c = (Inr (), c1) \<and>
               streamInv n m c1 \<and> st_results c1 = st_results c @ [r]"
proof -
  let ?rs = "st_results c"
  let ?c1 = "snd (progressCallback r (length ?rs + 1) n c)"
  have res: "st_results ?c1 = ?rs @ [r]"
    by (simp add: progressCallback_def sendMessage_def Let_def)
  have su: "st_successful ?c1 = successes (?rs @ [r])"
    using assms by (simp add: progressCallback_def sendMessage_def Let_def streamInv_def successes_def)
  have fa: "st_failed ?c1 = failures (?rs @ [r])"
    using assms by (simp add: progressCallback_def sendMessage_def Let_def streamInv_def failures_def)
  have cl: "\<not> closed ?c1"
    using assms by (simp add: progressCallback_def sendMessage_def Let_def streamInv_def)
  have "enqueued ?c1 =
          enqueued c @ [Progress r (length ?rs + 1) n (successes (?rs @ [r])) (failures (?rs @ [r]))]"
    using assms
    by (simp add: progressCallback_def sendMessage_def Let_def streamInv_def successes_def failures_def)
  also have "\<dots> = Start n m # map (progressMessage n ?rs) [0..<length ?rs] @
                     [progressMessage n (?rs @ [r]) (length ?rs)]"
    using assms by (simp add: streamInv_def progressMessage_def)
  also have "map (progressMessage n ?rs) [0..<length ?rs] =
             map (progressMessage n (?rs @ [r])) [0..<length ?rs]"
    by (simp add: progressMessage_snoc)
  finally have en: "enqueued ?c1 =
      Start n m # map (progressMessage n (?rs @ [r])) [0..<length (?rs @ [r])]"
    by simp
  have "progressCallback r (length ?rs + 1) n c = (Inr (), ?c1)"
    by (simp add: progressCallback_def Let_def)
  moreover have "streamInv n m ?c1"
    unfolding streamInv_def using res su fa cl en by simp
  ultimately show ?thesis using res by blast
qed

lemma stream_loop_inv:
  assumes "streamInv n m c" and "length (st_results c) = i"
  shows "\<exists>res w new c1.
           publishEventsWithProgress_loop pf env n progressCallback tm i events (s, c) =
             (res, ((w, snd s @ new), c1)) \<and>
           streamInv n m c1 \<and>
           st_results c1 = st_results c @ progressOutcomes new \<and>
           (res = Inr () \<longrightarrow> length (progressOutcomes new) = length events) \<and>
           set (traceEmails new) \<subseteq> set (map ev_email events)"
  using assms
proof (induction events arbitrary: i s c)
  case Nil
  then show ?case
    by (intro exI [of _ "Inr ()"] exI [of _ "fst s"] exI [of _ "[]"] exI [of _ c])
       (simp add: traceEmails_def)
next
  case (Cons e events)
  from publishEvent_trace [of pf env e tm s] obtain pres w pnew where
    pe: "publishEvent pf env e tm s = (pres, (w, snd s @ pnew))" and
    pc: "case pres of
        Inr r \<Rightarrow>
          res_email r = ev_email e \<and> eventType r = eventTypeOf e \<and>
          filter orchestratorStep pnew = [EventsCreate (eventPayloadOf e)]
      | Inl x \<Rightarrow> pnew = [] \<or> filter orchestratorStep pnew = [EventsCreate (eventPayloadOf e)]" and
    pq: "progressOutcomes pnew = []" and
    pm: "set (traceEmails pnew) \<subseteq> {ev_email e}"
    by blast
  show ?case
  proof (cases pres)
    case (Inl x)
    with pe have "publishEventsWithProgress_loop pf env n progressCallback tm i (e # events) (s, c) =
              (Inl x, ((w, snd s @ pnew), c))"
      by simp
    with Cons.prems pq pm show ?thesis
      by (intro exI [of _ "Inl x"] exI [of _ w] exI [of _ pnew] exI [of _ c]) auto
  next
    case (Inr r)
    with pc have r: "res_email r = ev_email e" by simp
    from progressCallback_inv [OF Cons.prems(1), of r] Cons.prems(2) obtain c1 where
      cb: "progressCallback r (i + 1) n c = (Inr (), c1)" and inv1: "streamInv n m c1"
      and rs1: "st_results c1 = st_results c @ [r]"
      by auto
    let ?mid = "pnew @ [OnProgress r (i + 1) n] @ (if Suc 0 < n then [Delay 100] else [])"
    let ?s2 = "(w, snd s @ ?mid)"
    have len1: "length (st_results c1) = Suc i" using rs1 Cons.prems(2) by simp
    from Cons.IH [OF inv1 len1, of ?s2] obtain res w' new c2 where
      ih: "publishEventsWithProgress_loop pf env n progressCallback tm (Suc i) events (?s2, c1) =
             (res, ((w', snd ?s2 @ new), c2))"
          "streamInv n m c2"
          "st_results c2 = st_results c1 @ progressOutcomes new"
          "res = Inr () \<longrightarrow> length (progressOutcomes new) = length events"
          "set (traceEmails new) \<subseteq> set (map ev_email events)"
      by blast
    have run: "publishEventsWithProgress_loop pf env n progressCallback tm i (e # events) (s, c) =
            (res, ((w', snd s @ (?mid @ new)), c2))"
      using pe Inr cb ih(1) by (simp add: pace log_def split del: if_split)
    have po: "progressOutcomes (?mid @ new) = r # progressOutcomes new"
      using pq by (simp add: progressOutcomes_append)
    have em: "set (traceEmails (?mid @ new)) \<subseteq> set (map ev_email (e # events))"
      using pm ih(5) r by (auto simp add: traceEmails_def)
    from run ih(2,3,4) po em rs1 show ?thesis
      by (intro exI [of _ res] exI [of _ w'] exI [of _ "?mid @ new"] exI [of _ c2]) simp
  qed
qed

lemma streamInv_initial: "streamInv n m (sendMessage (Start n m) emptyStream)"
  by (simp add: streamInv_def sendMessage_def emptyStream_def successes_def failures_def)

lemma st_results_initial: "st_results (sendMessage (Start n m) emptyStream) = []"
  by (simp add: sendMessage_def emptyStream_def)

lemma streamStart_run:
  "\<exists>res w new c1.
     publishEventsWithProgress pf env events progressCallback tm
       (s, sendMessage (Start (length events) (length attendees)) emptyStream) =
       (res, ((w, snd s @ new), c1)) \<and>
     streamInv (length events) (length attendees) c1 \<and>
     st_results c1 = progressOutcomes new \<and>
     (res = Inr () \<longrightarrow> length (progressOutcomes new) = length events) \<and>
     set (traceEmails new) \<subseteq> set (map ev_email events) \<and>
     streamStart pf env events attendees errs tm s =
       ((w, snd s @ new),
        (sendMessage
           (case res of
              Inr u \<Rightarrow> Complete (length attendees) (st_successful c1) (st_failed c1) (st_results c1)
                         (if errs \<noteq> [] then Some errs else None)
            | Inl x \<Rightarrow> ErrorMessage (case errorMessageOf x of Some msg \<Rightarrow> msg
                                      | None \<Rightarrow> ''Unknown error occurred''))
           c1)\<lparr>closed := True\<rparr>)"
proof -
  let ?c0 = "sendMessage (Start (length events) (length attendees)) emptyStream"
  have len0: "length (st_results ?c0) = 0" by (simp add: st_results_initial)
  from stream_loop_inv [OF streamInv_initial len0,
         where pf = pf and env = env and tm = tm and events = events and s = s]
  obtain res w new c1 where
    run: "publishEventsWithProgress_loop pf env (length events) progressCallback tm 0 events (s, ?c0) =
            (res, ((w, snd s @ new), c1))" and
    inv: "streamInv (length events) (length attendees) c1" and
    rs: "st_results c1 = st_results ?c0 @ progressOutcomes new" and
    len: "res = Inr () \<longrightarrow> length (progressOutcomes new) = length events" and
    em: "set (traceEmails new) \<subseteq> set (map ev_email events)"
    by blast
  have start: "streamStart pf env events attendees errs tm s =
       ((w, snd s @ new),
        (sendMessage
           (case res of
              Inr u \<Rightarrow> Complete (length attendees) (st_successful c1) (st_failed c1) (st_results c1)
                         (if errs \<noteq> [] then Some errs else None)
            | Inl x \<Rightarrow> ErrorMessage (case errorMessageOf x of Some msg \<Rightarrow> msg
                                      | None \<Rightarrow> ''Unknown error occurred''))
           c1)\<lparr>closed := True\<rparr>)"
    using run
    by (cases res)
       (simp_all add: streamStart_def publishEventsWithProgress_def emptyStream_def Let_def)
  from run inv rs len em start show ?thesis
    unfolding publishEventsWithProgress_def by (simp add: st_results_initial)
qed

text \<open>
  C8. For every batch the stream holds, in this order: one start message with the number
  of events and of attendees; one progress message per outcome handed to the callback,
  each with the outcome, its 1-based index, the number of events and the numbers of
  successes and failures among the outcomes up to it; and one terminal message. When the
  orchestrator returns, the terminal message is the complete message with the number of
  attendees, the final counters, all outcomes (one per event) and the row-level errors
  if there are any; when it throws, it is the error message with the error's message
  (or "Unknown error occurred"). On both paths the stream is closed after the terminal
  message.
\<close>

theorem stream_protocol:
  "\<exists>w new c terminal.
     streamStart pf env events attendees errs tm s = ((w, snd s @ new), c) \<and>
     closed c \<and> st_results c = progressOutcomes new \<and>
     enqueued c =
       Start (length events) (length attendees) #
       map (progressMessage (length events) (st_results c)) [0..<length (st_results c)] @
       [terminal] \<and>
     (case fst (publishEventsWithProgress pf env events progressCallback tm
                  (s, sendMessage (Start (length events) (length attendees)) emptyStream)) of
        Inr u \<Rightarrow>
          length (st_results c) = length events \<and>
          terminal = Complete (length attendees) (successes (st_results c)) (failures (st_results c))
                       (st_results c) (if errs \<noteq> [] then Some errs else None)
      | Inl x \<Rightarrow>
          terminal = ErrorMessage (case errorMessageOf x of Some msg \<Rightarrow> msg
                                   | None \<Rightarrow> ''Unknown error occurred''))"
proof -
  from streamStart_run [of pf env events tm s attendees errs]
  obtain res w new c1 where
    run: "publishEventsWithProgress pf env events progressCallback tm
            (s, sendMessage (Start (length events) (length attendees)) emptyStream) =
            (res, ((w, snd s @ new), c1))" and
    inv: "streamInv (length events) (length attendees) c1" and
    rs: "st_results c1 = progressOutcomes new" and
    len: "res = Inr () \<longrightarrow> length (progressOutcomes new) = length events" and
    start: "streamStart pf env events attendees errs tm s =
       ((w, snd s @ new),
        (sendMessage
           (case res of
              Inr u \<Rightarrow> Complete (length attendees) (st_successful c1) (st_failed c1) (st_results c1)
                         (if errs \<noteq> [] then Some errs else None)
            | Inl x \<Rightarrow> ErrorMessage (case errorMessageOf x of Some msg \<Rightarrow> msg
                                      | None \<Rightarrow> ''Unknown error occurred''))
           c1)\<lparr>closed := True\<rparr>)"
    by blast
  let ?t = "case res of
              Inr u \<Rightarrow> Complete (length attendees) (st_successful c1) (st_failed c1) (st_results c1)
                         (if errs \<noteq> [] then Some errs else None)
            | Inl x \<Rightarrow> ErrorMessage (case errorMessageOf x of Some msg \<Rightarrow> msg
                                      | None \<Rightarrow> ''Unknown error occurred'')"
  let ?c = "(sendMessage ?t c1)\<lparr>closed := True\<rparr>"
  have a: "closed ?c" by simp
  have b: "st_results ?c = progressOutcomes new" using rs by (simp add: sendMessage_def)
  have c: "enqueued ?c =
       Start (length events) (length attendees) #
       map (progressMessage (length events) (st_results ?c)) [0..<length (st_results ?c)] @ [?t]"
    using inv by (simp add: sendMessage_def streamInv_def)
  have d: "(case fst (publishEventsWithProgress pf env events progressCallback tm
                  (s, sendMessage (Start (length events) (length attendees)) emptyStream)) of
        Inr u \<Rightarrow>
          length (st_results ?c) = length events \<and>
          ?t = Complete (length attendees) (successes (st_results ?c)) (failures (st_results ?c))
                       (st_results ?c) (if errs \<noteq> [] then Some errs else None)
      | Inl x \<Rightarrow>
          ?t = ErrorMessage (case errorMessageOf x of Some msg \<Rightarrow> msg
                                   | None \<Rightarrow> ''Unknown error occurred''))"
    using run inv rs len by (cases res) (simp_all add: sendMessage_def streamInv_def)
  from start a b c d show ?thesis by blast
qed

theorem stream_protocol_witness:
  "(\<exists>w new c terminal.
     streamStart scripted liveEnv [sampleRegistered, sampleAttended] [] [] False (0, []) =
       ((w, snd ((0::nat), ([]::action list)) @ new), c) \<and>
     closed c \<and> st_results c = progressOutcomes new \<and>
     enqueued c =
       Start (length [sampleRegistered, sampleAttended]) (length ([]::LumaAttendee list)) #
       map (progressMessage (length [sampleRegistered, sampleAttended]) (st_results c))
         [0..<length (st_results c)] @
       [terminal] \<and>
     (case fst (publishEventsWithProgress scripted liveEnv [sampleRegistered, sampleAttended]
                  progressCallback False
                  ((0, []), sendMessage (Start (length [sampleRegistered, sampleAttended])
                                           (length ([]::LumaAttendee list))) emptyStream)) of
        Inr u \<Rightarrow>
          length (st_results c) = length [sampleRegistered, sampleAttended] \<and>
          terminal = Complete (length ([]::LumaAttendee list)) (successes (st_results c))
                       (failures (st_results c)) (st_results c)
                       (if ([]::string list) \<noteq> [] then Some [] else None)
      | Inl x \<Rightarrow>
          terminal = ErrorMessage (case errorMessageOf x of Some msg \<Rightarrow> msg
                                   | None \<Rightarrow> ''Unknown error occurred''))) \<and>
   snd (streamStart scripted liveEnv [sampleRegistered, sampleAttended] [] [] False (0, [])) =
     \<lparr>st_results =
        [\<lparr>success = True, res_email = ''a@x.com'', eventType = RegisteredForEvent, error = None\<rparr>,
         \<lparr>success = False, res_email = ''b@x.com'', eventType = AttendedEvent,
          error = Some ''Intercom API error (500): boom, bad field Request ID: req-1''\<rparr>],
      st_successful = 1, st_failed = 1,
      enqueued =
        [Start 2 0,
         Progress \<lparr>success = True, res_email = ''a@x.com'', eventType = RegisteredForEvent,
                   error = None\<rparr> 1 2 1 0,
         Progress \<lparr>success = False, res_email = ''b@x.com'', eventType = AttendedEvent,
                   error = Some ''Intercom API error (500): boom, bad field Request ID: req-1''\<rparr>
           2 2 1 1,
         Complete 0 1 1
           [\<lparr>success = True, res_email = ''a@x.com'', eventType = RegisteredForEvent, error = None\<rparr>,
            \<lparr>success = False, res_email = ''b@x.com'', eventType = AttendedEvent,
             error = Some ''Intercom API error (500): boom, bad field Request ID: req-1''\<rparr>]
           None],
      closed = True\<rparr> \<and>
   snd (streamStart scripted noTokenEnv [sampleRegistered, sampleAttended] [] [] False (0, [])) =
     \<lparr>st_results = [], st_successful = 0, st_failed = 0,
      enqueued =
        [Start 2 0,
         ErrorMessage ''INTERCOM_ACCESS_TOKEN environment variable is not set. Please add it to your .env.local file.''],
      closed = True\<rparr>"
proof -
  note t = stream_protocol
             [where pf = scripted and env = liveEnv
                and events = "[sampleRegistered, sampleAttended]" and attendees = "[]"
                and errs = "[]" and tm = False and s = "(0, [])"]
  have a: "snd (streamStart scripted liveEnv [sampleRegistered, sampleAttended] [] [] False (0, [])) =
     \<lparr>st_results =
        [\<lparr>success = True, res_email = ''a@x.com'', eventType = RegisteredForEvent, error = None\<rparr>,
         \<lparr>success = False, res_email = ''b@x.com'', eventType = AttendedEvent,
          error = Some ''Intercom API error (500): boom, bad field Request ID: req-1''\<rparr>],
      st_successful = 1, st_failed = 1,
      enqueued =
        [Start 2 0,
         Progress \<lparr>success = True, res_email = ''a@x.com'', eventType = RegisteredForEvent,
                   error = None\<rparr> 1 2 1 0,
         Progress \<lparr>success = False, res_email = ''b@x.com'', eventType = AttendedEvent,
                   error = Some ''Intercom API error (500): boom, bad field Request ID: req-1''\<rparr>
           2 2 1 1,
         Complete 0 1 1
           [\<lparr>success = True, res_email = ''a@x.com'', eventType = RegisteredForEvent, error = None\<rparr>,
            \<lparr>success = False, res_email = ''b@x.com'', eventType = AttendedEvent,
             error = Some ''Intercom API error (500): boom, bad field Request ID: req-1''\<rparr>]
           None],
      closed = True\<rparr>"
    by code_simp
  have b: "snd (streamStart scripted noTokenEnv [sampleRegistered, sampleAttended] [] [] False (0, [])) =
     \<lparr>st_results = [], st_successful = 0, st_failed = 0,
      enqueued =
        [Start 2 0,
         ErrorMessage ''INTERCOM_ACCESS_TOKEN environment variable is not set. Please add it to your .env.local file.''],
      closed = True\<rparr>"
    by code_simp
  show ?thesis by (rule conjI [OF t conjI [OF a b]])
qed

section \<open>Test mode\<close>












end
